theory Spec2Isabelle
  imports Main
begin

section \<open>The document line index of BracketsSearchCursor.js\<close>

text \<open>
  A JavaScript string is a sequence of code units; the functions below are polymorphic in
  the code-unit type, and the concrete examples use \<^typ>\<open>char\<close>.  A JavaScript
  value that may be \<^verbatim>\<open>undefined\<close> or \<^verbatim>\<open>NaN\<close> is an \<^typ>\<open>'a option\<close>, with
  \<^term>\<open>None\<close> for \<^verbatim>\<open>undefined\<close>/\<^verbatim>\<open>NaN\<close>; every comparison with it is false, as in
  JavaScript.
\<close>

subsection \<open>\<^verbatim>\<open>String.prototype.split\<close> with a string separator\<close>

text \<open>
  The host function \<^verbatim>\<open>text.split(lineSeparator)\<close>, as ECMAScript defines it for a string
  separator: the text is cut at each leftmost occurrence of the separator, scanning from
  the left without overlap.  With the empty separator the text is cut into its code units
  (and the empty text gives the empty array).  \<open>cur\<close> is the part of the current piece
  read so far.
\<close>

function split_go :: "'a list \<Rightarrow> 'a list \<Rightarrow> 'a list \<Rightarrow> 'a list list" where
  "split_go sep cur [] = [cur]"
| "split_go sep cur (c # cs) =
     (if sep \<noteq> [] \<and> take (length sep) (c # cs) = sep
      then cur # split_go sep [] (drop (length sep) (c # cs))
      else split_go sep (cur @ [c]) cs)"
  by pat_completeness auto
termination
  by (relation "measure (\<lambda>(sep, cur, t). length t)") auto

definition split :: "'a list \<Rightarrow> 'a list \<Rightarrow> 'a list list" where
  "split docText sep = (if sep = [] then map (\<lambda>c. [c]) docText else split_go sep [] docText)"

text \<open>\<^verbatim>\<open>Array.prototype.join\<close>, the inverse of \<open>split\<close>; used in statements only.\<close>

fun join :: "'a list \<Rightarrow> 'a list list \<Rightarrow> 'a list" where
  "join sep [] = []"
| "join sep [l] = l"
| "join sep (l # l' # ls) = l @ sep @ join sep (l' # ls)"

subsection \<open>\<^verbatim>\<open>_createLineCharacterCountIndex\<close>\<close>

text \<open>
  The loop of \<^verbatim>\<open>_createLineCharacterCountIndex\<close> over the remaining lines.
  \<^verbatim>\<open>totalCharacterCount\<close> is a JavaScript number and is not reduced; the value stored
  in the \<^verbatim>\<open>Uint32Array\<close> is reduced modulo \<open>2 ^ 32\<close>.
\<close>

fun lineIndexLoop :: "nat \<Rightarrow> nat \<Rightarrow> 'a list list \<Rightarrow> nat list" where
  "lineIndexLoop lineSeparatorLength totalCharacterCount [] = []"
| "lineIndexLoop lineSeparatorLength totalCharacterCount (l # ls) =
     (let totalCharacterCount' = totalCharacterCount + length l + lineSeparatorLength
      in (totalCharacterCount' mod 2 ^ 32)
         # lineIndexLoop lineSeparatorLength totalCharacterCount' ls)"

definition createLineCharacterCountIndex :: "'a list \<Rightarrow> 'a list \<Rightarrow> nat list" where
  "createLineCharacterCountIndex docText lineSeparator =
     lineIndexLoop (length lineSeparator) 0 (split docText lineSeparator)"

subsection \<open>Positions and the conversions between offsets and positions\<close>

record pos =
  line :: "nat option"
  ch :: "int option"

record range =
  from_pos :: pos
  to_pos :: pos

text \<open>
  The loop of \<^verbatim>\<open>_lineFromIndex\<close>, counting up from \<open>lineNumber\<close>; falling off the end
  of the array returns \<^verbatim>\<open>undefined\<close>.
\<close>

function lineFromIndexLoop :: "nat list \<Rightarrow> nat \<Rightarrow> int \<Rightarrow> nat option" where
  "lineFromIndexLoop lineCharacterCountIndexArray lineNumber indexWithinDoc =
     (if lineNumber < length lineCharacterCountIndexArray
      then (if int (lineCharacterCountIndexArray ! lineNumber) > indexWithinDoc
            then Some lineNumber
            else lineFromIndexLoop lineCharacterCountIndexArray (Suc lineNumber) indexWithinDoc)
      else None)"
  by pat_completeness auto
termination
  by (relation "measure (\<lambda>(L, n, i). length L - n)") auto

declare lineFromIndexLoop.simps [simp del]

definition lineFromIndex :: "nat list \<Rightarrow> nat option \<Rightarrow> int option \<Rightarrow> nat option" where
  "lineFromIndex lineCharacterCountIndexArray startSearchingWithLine indexWithinDoc =
     (case (startSearchingWithLine, indexWithinDoc) of
        (Some s, Some i) \<Rightarrow> lineFromIndexLoop lineCharacterCountIndexArray s i
      | _ \<Rightarrow> None)"

definition createPosFromIndex :: "nat list \<Rightarrow> nat option \<Rightarrow> int option \<Rightarrow> pos" where
  "createPosFromIndex lineCharacterCountIndexArray startSearchingWithLine indexWithinDoc =
     (let lineNumber = lineFromIndex lineCharacterCountIndexArray startSearchingWithLine indexWithinDoc;
          previousLineEndingCharacterIndex =
            (case lineNumber of
               Some n \<Rightarrow> if n > 0 then int (lineCharacterCountIndexArray ! (n - 1)) else 0
             | None \<Rightarrow> 0)
      in \<lparr>line = lineNumber,
          ch = map_option (\<lambda>i. i - previousLineEndingCharacterIndex) indexWithinDoc\<rparr>)"

text \<open>
  \<^verbatim>\<open>_indexFromPos\<close>.  Reading the typed array past its end gives \<^verbatim>\<open>undefined\<close>, and
  the sum is then \<^verbatim>\<open>NaN\<close>.
\<close>

definition indexFromPos :: "nat list \<Rightarrow> pos \<Rightarrow> int option" where
  "indexFromPos lineCharacterCountIndexArray p =
     (let indexAtStartOfLine =
            (case line p of
               Some n \<Rightarrow>
                 if n > 0
                 then (if n - 1 < length lineCharacterCountIndexArray
                       then Some (int (lineCharacterCountIndexArray ! (n - 1))) else None)
                 else Some 0
             | None \<Rightarrow> Some 0)
      in case (indexAtStartOfLine, ch p) of
           (Some a, Some c) \<Rightarrow> Some (a + c)
         | _ \<Rightarrow> None)"

section \<open>The match table\<close>

subsection \<open>The host's regular expressions\<close>

text \<open>
  The regular-expression engine belongs to the host.  A compiled pattern is taken as a
  parameter: \<open>m docText i = Some n\<close> says that the pattern matches at offset \<open>i\<close> of
  \<open>docText\<close> and that the match is \<open>n\<close> code units long, \<open>None\<close> that it does not match
  at \<open>i\<close>.  \<open>exec\<close> is \<^verbatim>\<open>RegExp.prototype.exec\<close> for a global, non-sticky, non-unicode
  pattern, as ECMAScript defines it: starting at \<^verbatim>\<open>lastIndex\<close> it tries each offset in
  turn, fails once the offset is beyond the end of the text, and returns the offset of the
  match (\<^verbatim>\<open>matchArray.index\<close>) with the new \<^verbatim>\<open>lastIndex\<close>, the end of the match.
  Every scan of the module assigns \<^verbatim>\<open>lastIndex\<close> before its first \<^verbatim>\<open>exec\<close>, so
  \<^verbatim>\<open>lastIndex\<close> is an argument of the loops rather than a field.
\<close>

type_synonym 'a matcher = "'a list \<Rightarrow> nat \<Rightarrow> nat option"

function exec :: "'a matcher \<Rightarrow> 'a list \<Rightarrow> nat \<Rightarrow> (nat \<times> nat) option" where
  "exec m docText lastIndex =
     (if lastIndex > length docText then None
      else case m docText lastIndex of
             Some n \<Rightarrow> Some (lastIndex, lastIndex + n)
           | None \<Rightarrow> exec m docText (Suc lastIndex))"
  by pat_completeness auto
termination
  by (relation "measure (\<lambda>(m, t, i). Suc (length t) - i)") auto

declare exec.simps [simp del]

lemma exec_Some:
  "exec m docText lastIndex = Some (matchIndex, lastIndex') \<Longrightarrow>
   lastIndex \<le> matchIndex \<and> matchIndex \<le> length docText \<and> matchIndex \<le> lastIndex'"
proof (induction m docText lastIndex rule: exec.induct)
  case (1 m docText lastIndex)
  show ?case
  proof (cases "m docText lastIndex")
    case None
    then show ?thesis
      using "1.prems" "1.IH" by (subst (asm) exec.simps) (auto split: if_splits)
  next
    case (Some n)
    then show ?thesis
      using "1.prems" by (subst (asm) exec.simps) (auto split: if_splits)
  qed
qed

text \<open>
  Two patterns of the host engine, for the concrete scenarios: a plain string compiled
  after escaping, which matches itself, and \<^verbatim>\<open>.*\<close>, which matches the longest run of
  code units that are not line terminators.
\<close>

definition literal :: "'a list \<Rightarrow> 'a matcher" where
  "literal pattern docText i =
     (if take (length pattern) (drop i docText) = pattern then Some (length pattern) else None)"

definition dotStar :: "char matcher" where
  "dotStar docText i =
     Some (length (takeWhile (\<lambda>c. c \<noteq> CHR 0x0A \<and> c \<noteq> CHR 0x0D) (drop i docText)))"

subsection \<open>\<^verbatim>\<open>_searchAndAddResultsToArray\<close>\<close>

text \<open>
  The match table is a flat array of group size 2: group \<open>k\<close> holds the start offset of
  match \<open>k\<close> at flat index \<open>2 * k\<close> and its end offset at \<open>2 * k + 1\<close>.  The code only
  ever appends and removes whole groups, so the array is a list of pairs here; flat indices
  (\<^verbatim>\<open>index\<close>, \<^verbatim>\<open>_currentGroupIndex\<close>) are kept as the code has them.

  \<open>x || d\<close> on a number that may be missing:
\<close>

definition orElse :: "nat option \<Rightarrow> nat \<Rightarrow> nat" where
  "orElse x d = (case x of Some n \<Rightarrow> if n = 0 then d else n | None \<Rightarrow> d)"

text \<open>
  The \<^verbatim>\<open>while\<close> loop of \<^verbatim>\<open>_searchAndAddResultsToArray\<close>; the result is the list of
  groups written from flat index \<open>index\<close> on.
\<close>

function searchLoop ::
  "'a matcher \<Rightarrow> 'a list \<Rightarrow> nat \<Rightarrow> nat \<Rightarrow> nat \<Rightarrow> nat \<Rightarrow> (nat \<times> nat) list" where
  "searchLoop query docText matchCountLimit searchEndIndex lastIndex index =
     (case exec query docText lastIndex of
        None \<Rightarrow> []
      | Some (matchIndex, lastIndex') \<Rightarrow>
          (matchIndex, lastIndex') #
          (if index + 2 \<ge> matchCountLimit
              \<or> (if matchIndex = lastIndex' then lastIndex' + 1 else lastIndex') > searchEndIndex
           then []
           else searchLoop query docText matchCountLimit searchEndIndex
                  (if matchIndex = lastIndex' then lastIndex' + 1 else lastIndex') (index + 2)))"
  by pat_completeness auto
termination
  by (relation "measure (\<lambda>(q, t, l, e, i, n). Suc (length t) - i)")
     (auto dest!: exec_Some)

declare searchLoop.simps [simp del]

definition searchAndAddResultsToArray ::
  "'a matcher \<Rightarrow> 'a list \<Rightarrow> nat \<Rightarrow> nat option \<Rightarrow> nat option \<Rightarrow> (nat \<times> nat) list" where
  "searchAndAddResultsToArray query docText lastIndex matchCountLimit searchEndIndex =
     searchLoop query docText (orElse matchCountLimit 10000000 * 2)
       (orElse searchEndIndex (length docText)) lastIndex 0"

subsection \<open>\<^verbatim>\<open>_removeIfDuplicateResultOnEdge\<close> and \<^verbatim>\<open>_createSearchResults\<close>\<close>

definition removeIfDuplicateResultOnEdge ::
  "(nat \<times> nat) list \<Rightarrow> (nat \<times> nat) list \<Rightarrow> (nat \<times> nat) list" where
  "removeIfDuplicateResultOnEdge firstSearchResults secondSearchResults =
     (if length firstSearchResults = 0 \<or> length secondSearchResults = 0 then secondSearchResults
      else if fst (hd firstSearchResults) = fst (last secondSearchResults)
              \<and> snd (hd firstSearchResults) = snd (last secondSearchResults)
           then butlast secondSearchResults
           else secondSearchResults)"

text \<open>
  Assigning a number to \<^verbatim>\<open>lastIndex\<close>: \<^verbatim>\<open>exec\<close> reads it with \<^verbatim>\<open>ToLength\<close>, which
  takes \<^verbatim>\<open>NaN\<close> and negative numbers to 0.
\<close>

definition toLength :: "int option \<Rightarrow> nat" where
  "toLength i = (case i of Some n \<Rightarrow> nat n | None \<Rightarrow> 0)"

text \<open>
  \<open>maxResults\<close> is the closure variable of \<^verbatim>\<open>_createRegexIndexer\<close>, already replaced by
  its default there.  The number of results of the first search is the length of its array.
\<close>

definition createSearchResults ::
  "'a matcher \<Rightarrow> 'a list \<Rightarrow> nat \<Rightarrow> int option \<Rightarrow> (nat \<times> nat) list" where
  "createSearchResults query docText maxResults startIndex =
     (let startEndIndexArray =
            searchAndAddResultsToArray query docText (toLength startIndex) (Some maxResults) None;
          resultCount = length startEndIndexArray
      in if (case startIndex of Some s \<Rightarrow> s > 0 | None \<Rightarrow> False) \<and> resultCount < maxResults
         then (let startEndIndexFromBeginningOfDocument =
                     searchAndAddResultsToArray query docText 0 (Some maxResults)
                       (Some (toLength startIndex))
               in removeIfDuplicateResultOnEdge startEndIndexArray
                    startEndIndexFromBeginningOfDocument
                  @ startEndIndexArray)
         else startEndIndexArray)"

subsection \<open>\<^verbatim>\<open>_scanDocumentUsingRegularExpression\<close>\<close>

text \<open>
  The result is the list of the calls of \<^verbatim>\<open>fnEachMatch\<close>, in order, with the start
  and end position of each (the match array is left out).
\<close>

function scanLoop ::
  "nat list \<Rightarrow> 'a list \<Rightarrow> 'a matcher \<Rightarrow> int option \<Rightarrow> nat \<Rightarrow> nat option \<Rightarrow> (pos \<times> pos) list"
  where
  "scanLoop documentIndex documentText regex endRangeIndex lastIndex lastMatchedLine =
     (case exec regex documentText lastIndex of
        None \<Rightarrow> []
      | Some (matchIndex, lastIndex') \<Rightarrow>
          (let startPosition =
                 createPosFromIndex documentIndex lastMatchedLine (Some (int matchIndex));
               endPosition =
                 createPosFromIndex documentIndex (line startPosition) (Some (int lastIndex'))
           in if (case endRangeIndex of Some e \<Rightarrow> int lastIndex' \<le> e | None \<Rightarrow> False)
              then (startPosition, endPosition) #
                   scanLoop documentIndex documentText regex endRangeIndex
                     (if matchIndex = lastIndex' then lastIndex' + 1 else lastIndex')
                     (line endPosition)
              else []))"
  by pat_completeness auto
termination
  by (relation "measure (\<lambda>(L, t, r, e, i, l). Suc (length t) - i)")
     (auto dest!: exec_Some)

declare scanLoop.simps [simp del]

definition scanDocumentUsingRegularExpression ::
  "nat list \<Rightarrow> 'a list \<Rightarrow> 'a matcher \<Rightarrow> range option \<Rightarrow> (pos \<times> pos) list" where
  "scanDocumentUsingRegularExpression documentIndex documentText regex rng =
     (let startRangeIndex =
            (case rng of Some r \<Rightarrow> indexFromPos documentIndex (from_pos r) | None \<Rightarrow> Some 0);
          endRangeIndex =
            (case rng of
               Some r \<Rightarrow> indexFromPos documentIndex (to_pos r)
             | None \<Rightarrow> if documentIndex = [] then None else Some (int (last documentIndex)))
      in scanLoop documentIndex documentText regex endRangeIndex (toLength startRangeIndex)
           (Some 0))"

subsection \<open>\<^verbatim>\<open>_makeGroupArray\<close>\<close>

record groupArray =
  groups :: "(nat \<times> nat) list"
  currentGroupIndex :: int

definition makeGroupArray :: "(nat \<times> nat) list \<Rightarrow> groupArray" where
  "makeGroupArray array = \<lparr>groups = array, currentGroupIndex = - 2\<rparr>"

text \<open>Reading the flat array at index \<open>i\<close>; outside the array the read is \<^verbatim>\<open>undefined\<close>.\<close>

definition arrayRead :: "groupArray \<Rightarrow> int \<Rightarrow> int option" where
  "arrayRead array i =
     (if 0 \<le> i \<and> i < 2 * int (length (groups array))
      then Some (int (if even i then fst (groups array ! nat (i div 2))
                      else snd (groups array ! nat (i div 2))))
      else None)"

text \<open>\<^verbatim>\<open>nextGroupIndex\<close> and \<^verbatim>\<open>prevGroupIndex\<close> return \<^verbatim>\<open>false\<close> as \<open>None\<close>.\<close>

definition nextGroupIndex :: "groupArray \<Rightarrow> int option \<times> groupArray" where
  "nextGroupIndex array =
     (if currentGroupIndex array < 2 * int (length (groups array)) - 2
      then (Some (currentGroupIndex array + 2),
            array\<lparr>currentGroupIndex := currentGroupIndex array + 2\<rparr>)
      else (None, array\<lparr>currentGroupIndex := - 2\<rparr>))"

definition prevGroupIndex :: "groupArray \<Rightarrow> int option \<times> groupArray" where
  "prevGroupIndex array =
     (if currentGroupIndex array - 2 > - 1
      then (Some (currentGroupIndex array - 2),
            array\<lparr>currentGroupIndex := currentGroupIndex array - 2\<rparr>)
      else (None, array\<lparr>currentGroupIndex := - 2\<rparr>))"

definition setCurrentGroup :: "int \<Rightarrow> groupArray \<Rightarrow> groupArray" where
  "setCurrentGroup groupNumber array = array\<lparr>currentGroupIndex := groupNumber * 2\<rparr>"

definition getGroupValue :: "groupArray \<Rightarrow> int \<Rightarrow> int \<Rightarrow> int option" where
  "getGroupValue array groupNumber valueIndexWithinGroup =
     arrayRead array (2 * groupNumber + valueIndexWithinGroup)"

definition itemCount :: "groupArray \<Rightarrow> nat" where
  "itemCount array = length (groups array)"

subsection \<open>\<^verbatim>\<open>_createRegexIndexer\<close>\<close>

definition createSearchResult ::
  "nat list \<Rightarrow> int option \<Rightarrow> int option \<Rightarrow> nat option \<Rightarrow> range" where
  "createSearchResult docLineIndex indexStart indexEnd startLine =
     (let startLine' = (case startLine of None \<Rightarrow> 0 | Some l \<Rightarrow> l);
          fromPos = createPosFromIndex docLineIndex (Some startLine') indexStart;
          toPos = createPosFromIndex docLineIndex (line fromPos) indexEnd
      in \<lparr>from_pos = fromPos, to_pos = toPos\<rparr>)"

text \<open>The closure variables of \<^verbatim>\<open>_createRegexIndexer\<close> that its functions use.\<close>

record regexIndexer =
  startEndIndexArray :: groupArray
  docLineIndex :: "nat list"

definition createRegexIndexer ::
  "'a list \<Rightarrow> nat list \<Rightarrow> 'a matcher \<Rightarrow> nat option \<Rightarrow> range option \<Rightarrow> regexIndexer" where
  "createRegexIndexer docText lineIndex query maxResults startPosition =
     (let maxResults' = orElse maxResults 10000000;
          startPosition' =
            (case startPosition of
               Some r \<Rightarrow> r
             | None \<Rightarrow> \<lparr>from_pos = \<lparr>line = Some 0, ch = Some 0\<rparr>,
                        to_pos = \<lparr>line = Some 0, ch = Some 0\<rparr>\<rparr>)
      in \<lparr>startEndIndexArray =
            makeGroupArray
              (createSearchResults query docText maxResults'
                 (indexFromPos lineIndex (from_pos startPosition'))),
          docLineIndex = lineIndex\<rparr>)"

definition nextMatch :: "regexIndexer \<Rightarrow> range option \<times> regexIndexer" where
  "nextMatch indexer =
     (case nextGroupIndex (startEndIndexArray indexer) of
        (None, array) \<Rightarrow> (None, indexer\<lparr>startEndIndexArray := array\<rparr>)
      | (Some currentMatchIndex, array) \<Rightarrow>
          (Some (createSearchResult (docLineIndex indexer) (arrayRead array currentMatchIndex)
                   (arrayRead array (currentMatchIndex + 1)) None),
           indexer\<lparr>startEndIndexArray := array\<rparr>))"

definition prevMatch :: "regexIndexer \<Rightarrow> range option \<times> regexIndexer" where
  "prevMatch indexer =
     (case prevGroupIndex (startEndIndexArray indexer) of
        (None, array) \<Rightarrow> (None, indexer\<lparr>startEndIndexArray := array\<rparr>)
      | (Some currentMatchIndex, array) \<Rightarrow>
          (Some (createSearchResult (docLineIndex indexer) (arrayRead array currentMatchIndex)
                   (arrayRead array (currentMatchIndex + 1)) None),
           indexer\<lparr>startEndIndexArray := array\<rparr>))"

definition getItemByMatchNumber :: "regexIndexer \<Rightarrow> int \<Rightarrow> range" where
  "getItemByMatchNumber indexer matchNumber =
     createSearchResult (docLineIndex indexer)
       (arrayRead (startEndIndexArray indexer) (2 * matchNumber))
       (arrayRead (startEndIndexArray indexer) (2 * matchNumber + 1)) None"

definition getItemCount :: "regexIndexer \<Rightarrow> nat" where
  "getItemCount indexer = itemCount (startEndIndexArray indexer)"

definition getCurrentMatch :: "regexIndexer \<Rightarrow> range option" where
  "getCurrentMatch indexer =
     (let currentMatchIndex = currentGroupIndex (startEndIndexArray indexer)
      in if currentMatchIndex > - 1
         then Some (createSearchResult (docLineIndex indexer)
                      (arrayRead (startEndIndexArray indexer) currentMatchIndex)
                      (arrayRead (startEndIndexArray indexer) (currentMatchIndex + 1)) None)
         else None)"

definition getMatchIndexStart :: "regexIndexer \<Rightarrow> int \<Rightarrow> int option" where
  "getMatchIndexStart indexer matchNumber =
     getGroupValue (startEndIndexArray indexer) matchNumber 0"

definition getMatchIndexEnd :: "regexIndexer \<Rightarrow> int \<Rightarrow> int option" where
  "getMatchIndexEnd indexer matchNumber =
     getGroupValue (startEndIndexArray indexer) matchNumber 1"

definition setCurrentMatchNumber :: "int \<Rightarrow> regexIndexer \<Rightarrow> regexIndexer" where
  "setCurrentMatchNumber number indexer =
     indexer\<lparr>startEndIndexArray := setCurrentGroup number (startEndIndexArray indexer)\<rparr>"

subsection \<open>\<^verbatim>\<open>_compareMatchResultToPos\<close> and \<^verbatim>\<open>_findResultIndexNearPos\<close>\<close>

definition compareMatchResultToPos :: "int option \<Rightarrow> int option \<Rightarrow> int" where
  "compareMatchResultToPos matchIndex posIndex =
     (case (matchIndex, posIndex) of
        (Some a, Some b) \<Rightarrow> if a = b then 0 else if a < b then - 1 else 1
      | _ \<Rightarrow> 1)"

text \<open>
  The bisection loop either returns from inside (\<open>Hit\<close>) or ends with the last
  \<^verbatim>\<open>searchIndex\<close> and \<^verbatim>\<open>compare\<close>, both \<^verbatim>\<open>undefined\<close> when the body never ran.
\<close>

datatype bisection = Hit int | Ended "int option" "int option"

function findLoop ::
  "regexIndexer \<Rightarrow> int option \<Rightarrow> int \<Rightarrow> int \<Rightarrow> int option \<Rightarrow> int option \<Rightarrow> bisection" where
  "findLoop indexer p lowerBound upperBound searchIndex compare =
     (if lowerBound \<le> upperBound
      then (let searchIndex' = (upperBound + lowerBound) div 2;
                compare' = compareMatchResultToPos (getMatchIndexStart indexer searchIndex') p
            in if compare' = 0 then Hit searchIndex'
               else if compare' = - 1
               then findLoop indexer p (searchIndex' + 1) upperBound
                      (Some searchIndex') (Some compare')
               else findLoop indexer p lowerBound (searchIndex' - 1)
                      (Some searchIndex') (Some compare'))
      else Ended searchIndex compare)"
  by pat_completeness auto
termination
  by (relation "measure (\<lambda>(r, p, l, u, s, c). nat (u - l + 1))") auto

declare findLoop.simps [simp del]

text \<open>The result of \<^verbatim>\<open>_findResultIndexNearPos\<close>: a match number, \<^verbatim>\<open>false\<close> or \<^verbatim>\<open>undefined\<close>.\<close>

datatype nearIndex = MatchNumber int | JSFalse | JSUndefined

definition findResultIndexNearPos :: "regexIndexer \<Rightarrow> int option \<Rightarrow> bool \<Rightarrow> nearIndex" where
  "findResultIndexNearPos indexer p reverse =
     (let len = int (getItemCount indexer)
      in case findLoop indexer p 0 (len - 1) None None of
           Hit searchIndex \<Rightarrow> MatchNumber searchIndex
         | Ended searchIndex compare \<Rightarrow>
             (let searchIndex1 =
                    (if compare = Some (- 1) \<and> \<not> reverse
                     then map_option (\<lambda>i. i + 1) searchIndex else searchIndex);
                  searchIndex2 =
                    (if compare = Some 1 \<and> reverse
                     then map_option (\<lambda>i. i - 1) searchIndex1 else searchIndex1)
              in case searchIndex2 of
                   None \<Rightarrow> JSUndefined
                 | Some i \<Rightarrow> if i < 0 \<or> i \<ge> len then JSFalse else MatchNumber i))"

section \<open>The search cursor\<close>

subsection \<open>Documents, the document map and queries\<close>

text \<open>
  The host's document: \<^verbatim>\<open>getValue()\<close>, \<^verbatim>\<open>lineSeparator()\<close>,
  \<^verbatim>\<open>history.generation\<close> and \<^verbatim>\<open>lineCount()\<close>; \<open>docId\<close> is the object's identity,
  the key of the weak map.
\<close>

record 'a document =
  docId :: nat
  getValue :: "'a list"
  lineSeparator :: "'a list"
  historyGeneration :: nat
  lineCount :: nat

record 'a docInfo =
  infoText :: "'a list"
  infoIndex :: "nat list"
  infoGeneration :: nat

type_synonym 'a documentMap = "nat \<rightharpoonup> 'a docInfo"

definition needToIndexDocument :: "'a documentMap \<Rightarrow> 'a document \<Rightarrow> bool" where
  "needToIndexDocument documentMap d =
     (case documentMap (docId d) of
        Some info \<Rightarrow> infoGeneration info \<noteq> historyGeneration d
      | None \<Rightarrow> True)"

definition indexDocument :: "'a documentMap \<Rightarrow> 'a document \<Rightarrow> 'a documentMap" where
  "indexDocument documentMap d =
     documentMap(docId d \<mapsto>
       \<lparr>infoText = getValue d,
        infoIndex = createLineCharacterCountIndex (getValue d) (lineSeparator d),
        infoGeneration = historyGeneration d\<rparr>)"

text \<open>
  A compiled query: its \<^verbatim>\<open>source\<close> and whether its flags are \<^verbatim>\<open>igm\<close> rather than
  \<^verbatim>\<open>gm\<close>.  The host supplies \<^verbatim>\<open>StringUtils.regexEscape\<close>, the \<^verbatim>\<open>source\<close> that
  \<^verbatim>\<open>new RegExp\<close> gives a pattern, and the matcher of a compiled query.
\<close>

record 'a regexp =
  source :: "'a list"
  flagIgnoreCase :: bool

datatype 'a searchQuery = QString "'a list" | QRegExp "'a regexp"

record 'a host =
  regexEscape :: "'a list \<Rightarrow> 'a list"
  regExpSource :: "'a list \<Rightarrow> 'a list"
  regExpMatcher :: "'a regexp \<Rightarrow> 'a matcher"

definition convertToRegularExpression :: "'a host \<Rightarrow> 'a searchQuery \<Rightarrow> bool \<Rightarrow> 'a regexp" where
  "convertToRegularExpression h stringOrRegex ignoreCase =
     (case stringOrRegex of
        QString s \<Rightarrow>
          \<lparr>source = regExpSource h (regexEscape h s), flagIgnoreCase = ignoreCase\<rparr>
      | QRegExp r \<Rightarrow> \<lparr>source = regExpSource h (source r), flagIgnoreCase = ignoreCase\<rparr>)"

subsection \<open>The cursor object\<close>

text \<open>
  The fields the cursor's functions assign.  A field that is only ever tested for
  truthiness (\<^verbatim>\<open>ignoreCase\<close>, \<^verbatim>\<open>atOccurrence\<close>, \<^verbatim>\<open>resultsCurrent\<close>) is a
  \<^typ>\<open>bool\<close>, false while unassigned; the others are \<open>None\<close> while unassigned.  The
  cursor lives beside the module's document map, and each function returns both.  A
  \<^verbatim>\<open>TypeError\<close> thrown by a property access on \<^verbatim>\<open>undefined\<close> is the value
  \<open>Inl TypeError\<close>.
\<close>

datatype error = TypeError

record 'a cursor =
  doc :: "'a document option"
  query :: "'a regexp option"
  ignoreCase :: bool
  maxResults :: "nat option"
  currentPosition :: "range option"
  atOccurrence :: bool
  resultsCurrent :: bool
  regexIndexer :: "regexIndexer option"

type_synonym 'a state = "'a documentMap \<times> 'a cursor"

definition newCursor :: "'a cursor" where
  "newCursor =
     \<lparr>doc = None, query = None, ignoreCase = False, maxResults = None, currentPosition = None,
      atOccurrence = False, resultsCurrent = False, regexIndexer = None\<rparr>"

text \<open>
  \<^verbatim>\<open>scanDocumentAndStoreResultsInCursor\<close>.  Its last statement returns
  \<^verbatim>\<open>this.getMatchCount()\<close>, which finds the document indexed and \<^verbatim>\<open>resultsCurrent\<close>
  true and so only reads the item count.
\<close>

definition scanDocumentAndStoreResultsInCursor ::
  "'a host \<Rightarrow> 'a state \<Rightarrow> error + (nat \<times> 'a state)" where
  "scanDocumentAndStoreResultsInCursor h st =
     (case st of (documentMap, c) \<Rightarrow>
        (case doc c of
           None \<Rightarrow> Inl TypeError
         | Some d \<Rightarrow>
             (let documentMap' =
                    (if needToIndexDocument documentMap d then indexDocument documentMap d
                     else documentMap)
              in case documentMap' (docId d) of
                   None \<Rightarrow> Inl TypeError
                 | Some info \<Rightarrow>
                     (case query c of
                        None \<Rightarrow> Inl TypeError
                      | Some q \<Rightarrow>
                          (let indexer =
                                 createRegexIndexer (infoText info) (infoIndex info)
                                   (regExpMatcher h q) (maxResults c) (currentPosition c)
                           in Inr (getItemCount indexer, documentMap',
                                   c\<lparr>regexIndexer := Some indexer,
                                     resultsCurrent := True\<rparr>))))))"

definition updateResultsIfNeeded :: "'a host \<Rightarrow> 'a state \<Rightarrow> error + 'a state" where
  "updateResultsIfNeeded h st =
     (case st of (documentMap, c) \<Rightarrow>
        (case doc c of
           None \<Rightarrow> Inl TypeError
         | Some d \<Rightarrow>
             (let st' =
                    (if needToIndexDocument documentMap d
                     then (indexDocument documentMap d, c\<lparr>resultsCurrent := False\<rparr>)
                     else (documentMap, c))
              in if \<not> resultsCurrent (snd st')
                 then (case scanDocumentAndStoreResultsInCursor h st' of
                         Inl e \<Rightarrow> Inl e
                       | Inr (n, st'') \<Rightarrow> Inr st'')
                 else Inr st')))"

definition findNext :: "'a cursor \<Rightarrow> error + (range option \<times> 'a cursor)" where
  "findNext c =
     (case regexIndexer c of
        None \<Rightarrow> Inl TypeError
      | Some indexer \<Rightarrow>
          (case nextMatch indexer of
             (None, indexer') \<Rightarrow>
               Inr (None, c\<lparr>regexIndexer := Some indexer', atOccurrence := False,
                            currentPosition := None\<rparr>)
           | (Some match, indexer') \<Rightarrow> Inr (Some match, c\<lparr>regexIndexer := Some indexer'\<rparr>)))"

definition findPrevious :: "'a cursor \<Rightarrow> error + (range option \<times> 'a cursor)" where
  "findPrevious c =
     (case regexIndexer c of
        None \<Rightarrow> Inl TypeError
      | Some indexer \<Rightarrow>
          (case prevMatch indexer of
             (None, indexer') \<Rightarrow>
               Inr (None, c\<lparr>regexIndexer := Some indexer', atOccurrence := False,
                            currentPosition := None\<rparr>)
           | (Some match, indexer') \<Rightarrow> Inr (Some match, c\<lparr>regexIndexer := Some indexer'\<rparr>)))"

definition setQuery :: "'a host \<Rightarrow> 'a cursor \<Rightarrow> 'a searchQuery \<Rightarrow> 'a cursor" where
  "setQuery h c q =
     (let newRegexQuery = convertToRegularExpression h q (ignoreCase c);
          c' = (case query c of
                  Some old \<Rightarrow>
                    if source old \<noteq> source newRegexQuery then c\<lparr>resultsCurrent := False\<rparr>
                    else c
                | None \<Rightarrow> c)
      in c'\<lparr>query := Some newRegexQuery\<rparr>)"

definition setPos :: "'a cursor \<Rightarrow> pos \<Rightarrow> 'a cursor" where
  "setPos c p = c\<lparr>currentPosition := Some \<lparr>from_pos = p, to_pos = p\<rparr>\<rparr>"

definition startingPositionForFind :: "'a cursor \<Rightarrow> 'a document \<Rightarrow> bool \<Rightarrow> range" where
  "startingPositionForFind c d reverse =
     (case currentPosition c of
        Some r \<Rightarrow> r
      | None \<Rightarrow>
          (let p = (if reverse then \<lparr>line = Some (lineCount d), ch = Some 0\<rparr>
                    else \<lparr>line = Some 0, ch = Some 0\<rparr>)
           in \<lparr>from_pos = p, to_pos = p\<rparr>))"

subsection \<open>The public functions of the cursor\<close>

text \<open>
  The properties object of \<^verbatim>\<open>setSearchDocumentAndQuery\<close>; an absent property is
  \<open>None\<close>.  The empty string, \<^verbatim>\<open>false\<close> and 0 are falsy.
\<close>

record 'a properties =
  p_document :: "'a document option"
  p_searchQuery :: "'a searchQuery option"
  p_position :: "pos option"
  p_ignoreCase :: "bool option"
  p_maxResults :: "nat option"

definition truthyQuery :: "'a searchQuery option \<Rightarrow> bool" where
  "truthyQuery q = (case q of Some (QString s) \<Rightarrow> s \<noteq> [] | Some (QRegExp r) \<Rightarrow> True | None \<Rightarrow> False)"

definition truthyNumber :: "nat option \<Rightarrow> bool" where
  "truthyNumber n = (case n of Some k \<Rightarrow> k \<noteq> 0 | None \<Rightarrow> False)"

definition setSearchDocumentAndQuery :: "'a host \<Rightarrow> 'a properties \<Rightarrow> 'a cursor \<Rightarrow> 'a cursor" where
  "setSearchDocumentAndQuery h properties c =
     (let c0 = c\<lparr>atOccurrence := False\<rparr>;
          c1 = (if p_ignoreCase properties = Some True then c0\<lparr>ignoreCase := True\<rparr> else c0);
          c2 = (case p_document properties of Some d \<Rightarrow> c1\<lparr>doc := Some d\<rparr> | None \<Rightarrow> c1);
          c3 = (if truthyQuery (p_searchQuery properties)
                then (case p_searchQuery properties of Some q \<Rightarrow> setQuery h c2 q | None \<Rightarrow> c2)
                else c2);
          c4 = (case p_position properties of Some p \<Rightarrow> setPos c3 p | None \<Rightarrow> c3)
      in if truthyNumber (p_maxResults properties)
         then c4\<lparr>maxResults := p_maxResults properties\<rparr> else c4)"

definition createSearchCursor :: "'a host \<Rightarrow> 'a properties \<Rightarrow> 'a cursor" where
  "createSearchCursor h properties = setSearchDocumentAndQuery h properties newCursor"

definition getDocCharacterCount :: "'a host \<Rightarrow> 'a state \<Rightarrow> error + (nat option \<times> 'a state)" where
  "getDocCharacterCount h st =
     (case updateResultsIfNeeded h st of
        Inl e \<Rightarrow> Inl e
      | Inr (documentMap, c) \<Rightarrow>
          (case doc c of
             None \<Rightarrow> Inl TypeError
           | Some d \<Rightarrow>
               (case documentMap (docId d) of
                  None \<Rightarrow> Inl TypeError
                | Some info \<Rightarrow>
                    Inr (if infoIndex info = [] then None else Some (last (infoIndex info)),
                         documentMap, c))))"

definition getMatchCount :: "'a host \<Rightarrow> 'a state \<Rightarrow> error + (nat \<times> 'a state)" where
  "getMatchCount h st =
     (case updateResultsIfNeeded h st of
        Inl e \<Rightarrow> Inl e
      | Inr (documentMap, c) \<Rightarrow>
          (case regexIndexer c of
             None \<Rightarrow> Inl TypeError
           | Some indexer \<Rightarrow> Inr (getItemCount indexer, documentMap, c)))"

text \<open>
  \<^verbatim>\<open>find\<close> (named \<open>find_cursor\<close> here).  \<open>findSeeded\<close> is its first \<^verbatim>\<open>if\<close> block, which runs when no match is
  current and gives \<^verbatim>\<open>foundPosition\<close>; \<open>truthyIndex\<close> is the test
  \<^verbatim>\<open>if (matchIndex)\<close>.
\<close>

definition truthyIndex :: "nearIndex \<Rightarrow> bool" where
  "truthyIndex matchIndex = (case matchIndex of MatchNumber n \<Rightarrow> n \<noteq> 0 | _ \<Rightarrow> False)"

definition findSeeded ::
  "bool \<Rightarrow> 'a documentMap \<Rightarrow> 'a cursor \<Rightarrow> regexIndexer \<Rightarrow> 'a document
   \<Rightarrow> error + (range option \<times> 'a cursor)" where
  "findSeeded reverse documentMap c indexer d =
     (let start = startingPositionForFind c d reverse;
          c1 = c\<lparr>currentPosition := Some start\<rparr>
      in case documentMap (docId d) of
           None \<Rightarrow> Inl TypeError
         | Some info \<Rightarrow>
             (let matchIndex =
                    findResultIndexNearPos indexer
                      (indexFromPos (infoIndex info) (from_pos start)) reverse
              in if truthyIndex matchIndex
                 then (case matchIndex of
                         MatchNumber n \<Rightarrow>
                           (let indexer' = setCurrentMatchNumber n indexer
                            in Inr (getCurrentMatch indexer',
                                    c1\<lparr>regexIndexer := Some indexer'\<rparr>))
                       | _ \<Rightarrow> Inr (None, c1))
                 else Inr (None, c1)))"

definition find_cursor :: "'a host \<Rightarrow> bool \<Rightarrow> 'a state \<Rightarrow> error + (range option \<times> 'a state)" where
  "find_cursor h reverse st =
     (case updateResultsIfNeeded h st of
        Inl e \<Rightarrow> Inl e
      | Inr (documentMap, c) \<Rightarrow>
          (case (regexIndexer c, doc c) of
             (Some indexer, Some d) \<Rightarrow>
               (case (if getCurrentMatch indexer = None
                      then findSeeded reverse documentMap c indexer d
                      else Inr (None, c)) of
                  Inl e \<Rightarrow> Inl e
                | Inr (foundPosition, c2) \<Rightarrow>
                    (case (case foundPosition of
                             None \<Rightarrow> if reverse then findPrevious c2 else findNext c2
                           | Some f \<Rightarrow> Inr (Some f, c2)) of
                       Inl e \<Rightarrow> Inl e
                     | Inr (foundPosition', c3) \<Rightarrow>
                         Inr (foundPosition', documentMap,
                              (case foundPosition' of
                                 Some f \<Rightarrow> c3\<lparr>currentPosition := Some f, atOccurrence := True\<rparr>
                               | None \<Rightarrow> c3))))
           | _ \<Rightarrow> Inl TypeError))"

section \<open>Notions used in the statements, and the inputs of the scenarios\<close>

text \<open>The start offsets of the match table, in order.\<close>

definition matchStarts :: "regexIndexer \<Rightarrow> int list" where
  "matchStarts indexer = map (\<lambda>g. int (fst g)) (groups (startEndIndexArray indexer))"

text \<open>
  A host for the scenarios, whose queries are plain strings without special characters:
  \<^verbatim>\<open>regexEscape\<close> leaves such a string unchanged, it is its own \<^verbatim>\<open>source\<close>, and it
  matches itself, with the letters a to z and A to Z identified when the \<^verbatim>\<open>i\<close> flag is
  set.
\<close>

definition canonicalize :: "char \<Rightarrow> nat" where
  "canonicalize c =
     (if 97 \<le> (of_char c :: nat) \<and> (of_char c :: nat) \<le> 122 then of_char c - 32
      else of_char c)"

definition literalIgnoreCase :: "string \<Rightarrow> char matcher" where
  "literalIgnoreCase pattern docText i =
     (if map canonicalize (take (length pattern) (drop i docText)) = map canonicalize pattern
      then Some (length pattern) else None)"

definition literalHost :: "char host" where
  "literalHost =
     \<lparr>regexEscape = (\<lambda>s. s), regExpSource = (\<lambda>s. s),
      regExpMatcher =
        (\<lambda>r. if flagIgnoreCase r then literalIgnoreCase (source r) else literal (source r))\<rparr>"

text \<open>A document with the default line separator and no properties but the text.\<close>

definition documentOf :: "string \<Rightarrow> char document" where
  "documentOf docText =
     \<lparr>docId = 0, getValue = docText, lineSeparator = [CHR 0x0A], historyGeneration = 0,
      lineCount = length (split docText [CHR 0x0A])\<rparr>"

definition noProperties :: "char properties" where
  "noProperties =
     \<lparr>p_document = None, p_searchQuery = None, p_position = None, p_ignoreCase = None,
      p_maxResults = None\<rparr>"

section \<open>Evaluation rules for the scenarios\<close>

lemmas scan_eval =
  createSearchResults_def searchAndAddResultsToArray_def orElse_def toLength_def
  searchLoop.simps exec.simps removeIfDuplicateResultOnEdge_def

lemmas index_eval =
  createLineCharacterCountIndex_def split_def indexFromPos_def createPosFromIndex_def
  lineFromIndex_def lineFromIndexLoop.simps createSearchResult_def Let_def

lemmas indexer_eval =
  createRegexIndexer_def makeGroupArray_def arrayRead_def nextGroupIndex_def prevGroupIndex_def
  setCurrentGroup_def getGroupValue_def itemCount_def nextMatch_def prevMatch_def
  getItemByMatchNumber_def getItemCount_def getCurrentMatch_def getMatchIndexStart_def
  getMatchIndexEnd_def setCurrentMatchNumber_def compareMatchResultToPos_def findLoop.simps
  findResultIndexNearPos_def

lemmas cursor_eval =
  needToIndexDocument_def indexDocument_def convertToRegularExpression_def newCursor_def
  scanDocumentAndStoreResultsInCursor_def updateResultsIfNeeded_def findNext_def
  findPrevious_def setQuery_def setPos_def startingPositionForFind_def truthyQuery_def
  truthyNumber_def setSearchDocumentAndQuery_def createSearchCursor_def
  getDocCharacterCount_def getMatchCount_def truthyIndex_def findSeeded_def find_cursor_def

lemmas scenario_eval =
  literalHost_def literal_def literalIgnoreCase_def canonicalize_def documentOf_def
  noProperties_def dotStar_def


section \<open>Properties of the line index\<close>

lemma split_go_not_Nil: "split_go sep cur docText \<noteq> []"
  by (induction sep cur docText rule: split_go.induct) auto

lemma join_Cons: "ls \<noteq> [] \<Longrightarrow> join sep (l # ls) = l @ sep @ join sep ls"
  by (cases ls) auto

lemma join_split_go: "sep \<noteq> [] \<Longrightarrow> join sep (split_go sep cur t) = cur @ t"
proof (induction sep cur t rule: split_go.induct)
  case (1 sep cur)
  then show ?case by simp
next
  case (2 sep cur c cs)
  show ?case
  proof (cases "take (length sep) (c # cs) = sep")
    case True
    have "join sep (cur # split_go sep [] (drop (length sep) (c # cs)))
          = cur @ sep @ drop (length sep) (c # cs)"
      using 2 True by (simp add: join_Cons split_go_not_Nil)
    also have "sep @ drop (length sep) (c # cs) = c # cs"
      using True by (metis append_take_drop_id)
    finally show ?thesis using 2 True by simp
  next
    case False
    then show ?thesis using 2 by simp
  qed
qed

lemma join_split: "sep \<noteq> [] \<Longrightarrow> join sep (split t sep) = t"
  by (simp add: split_def join_split_go)

lemma split_not_Nil: "sep \<noteq> [] \<Longrightarrow> split t sep \<noteq> []"
  by (simp add: split_def split_go_not_Nil)

lemma join_sep_concat: "ls \<noteq> [] \<Longrightarrow> join sep ls @ sep = concat (map (\<lambda>l. l @ sep) ls)"
  by (induction sep ls rule: join.induct) auto

lemma length_lineIndexLoop [simp]: "length (lineIndexLoop n t ls) = length ls"
  by (induction ls arbitrary: t) (auto simp: Let_def)

lemma lineIndexLoop_nth:
  "t + sum_list (map (\<lambda>l. length l + n) ls) < 2 ^ 32 \<Longrightarrow> i < length ls \<Longrightarrow>
   lineIndexLoop n t ls ! i = t + sum_list (map (\<lambda>l. length l + n) (take (Suc i) ls))"
proof (induction ls arbitrary: t i)
  case Nil
  then show ?case by simp
next
  case (Cons l ls)
  show ?case
  proof (cases i)
    case 0
    then show ?thesis using Cons.prems by (simp add: Let_def)
  next
    case (Suc j)
    have "lineIndexLoop n (t + length l + n) ls ! j
          = (t + length l + n) + sum_list (map (\<lambda>l. length l + n) (take (Suc j) ls))"
      using Cons.prems Suc by (intro Cons.IH) auto
    then show ?thesis using Suc by (simp add: Let_def)
  qed
qed

abbreviation cum :: "nat \<Rightarrow> 'a list list \<Rightarrow> nat \<Rightarrow> nat" where
  "cum n ls k \<equiv> sum_list (map (\<lambda>l. length l + n) (take k ls))"

lemma cum_mono: "j \<le> k \<Longrightarrow> cum n ls j \<le> cum n ls k"
proof -
  assume "j \<le> k"
  then have "take k ls = take j ls @ take (k - j) (drop j ls)"
    by (metis le_add_diff_inverse take_add)
  then show ?thesis by simp
qed

lemma cum_Suc: "k < length ls \<Longrightarrow> cum n ls (Suc k) = cum n ls k + length (ls ! k) + n"
  by (simp add: take_Suc_conv_app_nth)

lemma cum_le_all: "cum n ls k \<le> sum_list (map (\<lambda>l. length l + n) ls)"
  using cum_mono [of k "max k (length ls)" n ls] by simp

lemma lineFromIndexLoop_found:
  "n \<le> l \<Longrightarrow> l < length L \<Longrightarrow> (\<forall>j. n \<le> j \<and> j < l \<longrightarrow> int (L ! j) \<le> idx) \<Longrightarrow>
   int (L ! l) > idx \<Longrightarrow> lineFromIndexLoop L n idx = Some l"
proof (induction "l - n" arbitrary: n)
  case 0
  then show ?case by (simp add: lineFromIndexLoop.simps)
next
  case (Suc d)
  then have "n < l" by simp
  then have "int (L ! n) \<le> idx" using Suc.prems by simp
  moreover have "lineFromIndexLoop L (Suc n) idx = Some l"
    using Suc by (intro Suc.hyps(1)) auto
  ultimately show ?case using Suc.prems by (subst lineFromIndexLoop.simps) simp
qed

lemma index_nth:
  assumes "sep \<noteq> []" "length t + length sep < 2 ^ 32" "i < length (split t sep)"
  shows "createLineCharacterCountIndex t sep ! i = cum (length sep) (split t sep) (Suc i)"
proof -
  have "length (join sep (split t sep) @ sep) = sum_list (map (\<lambda>l. length l + length sep) (split t sep))"
    using assms(1) by (simp add: join_sep_concat split_not_Nil length_concat comp_def)
  then have "sum_list (map (\<lambda>l. length l + length sep) (split t sep)) = length t + length sep"
    using assms(1) by (simp add: join_split)
  then show ?thesis
    using assms lineIndexLoop_nth [of 0 "length sep" "split t sep" i]
    by (simp add: createLineCharacterCountIndex_def)
qed

lemma length_index [simp]:
  "length (createLineCharacterCountIndex t sep) = length (split t sep)"
  by (simp add: createLineCharacterCountIndex_def)


lemma sum_all:
  assumes "sep \<noteq> []"
  shows "sum_list (map (\<lambda>l. length l + length sep) (split t sep)) = length t + length sep"
proof -
  have "length (join sep (split t sep) @ sep)
        = sum_list (map (\<lambda>l. length l + length sep) (split t sep))"
    using assms by (simp add: join_sep_concat split_not_Nil length_concat comp_def)
  then show ?thesis using assms by (simp add: join_split)
qed

lemma lineIndex_last:
  assumes sep: "sep \<noteq> []"
    and small: "length docText + length sep < 2 ^ 32"
  shows "last (createLineCharacterCountIndex docText sep)
         = length docText + length sep"
proof -
  let ?ls = "split docText sep"
  let ?L = "createLineCharacterCountIndex docText sep"
  have ne: "?ls \<noteq> []" using sep by (rule split_not_Nil)
  then have "?L \<noteq> []" by (metis length_index length_0_conv)
  then have "last ?L = ?L ! (length ?ls - 1)" by (simp add: last_conv_nth)
  also have "\<dots> = cum (length sep) ?ls (Suc (length ?ls - 1))"
    using ne by (intro index_nth [OF sep small]) simp
  also have "\<dots> = length docText + length sep"
    using ne sum_all [OF sep, of docText] by simp
  finally show ?thesis .
qed

lemma lineIndex_line_start:
  assumes sep: "sep \<noteq> []"
    and small: "length docText + length sep < 2 ^ 32"
    and i: "0 < i" "i < length (split docText sep)"
  shows "take (createLineCharacterCountIndex docText sep ! (i - 1)) docText
         = concat (map (\<lambda>l. l @ sep) (take i (split docText sep)))
       \<and> take (length (split docText sep ! i))
            (drop (createLineCharacterCountIndex docText sep ! (i - 1)) docText)
         = split docText sep ! i"
proof -
  let ?ls = "split docText sep"
  let ?L = "createLineCharacterCountIndex docText sep"
  let ?f = "\<lambda>l. l @ sep"
  let ?pre = "concat (map ?f (take i ?ls))"
  let ?rest = "concat (map ?f (drop (Suc i) ?ls))"
  have ne: "?ls \<noteq> []" using i by auto
  have "docText @ sep = concat (map ?f ?ls)"
    using join_sep_concat [OF ne, of sep] sep by (simp add: join_split)
  also have "?ls = take i ?ls @ (?ls ! i) # drop (Suc i) ?ls"
    using i by (simp add: id_take_nth_drop)
  also have "concat (map ?f (take i ?ls @ (?ls ! i) # drop (Suc i) ?ls))
             = ?pre @ (?ls ! i) @ sep @ ?rest"
    by simp
  finally have dec: "docText @ sep = ?pre @ (?ls ! i) @ sep @ ?rest" .
  have "?L ! (i - 1) = cum (length sep) ?ls (Suc (i - 1))"
    using i by (intro index_nth [OF sep small]) simp
  then have a: "?L ! (i - 1) = length ?pre"
    using i by (simp add: length_concat comp_def)
  have "length (docText @ sep)
        = length ?pre + length (?ls ! i) + length sep + length ?rest"
    using arg_cong [OF dec, of length] by simp
  then have le: "length ?pre + length (?ls ! i) \<le> length docText" by simp
  have "take (length ?pre) docText = take (length ?pre) (docText @ sep)"
    using le by simp
  also have "\<dots> = ?pre" unfolding dec by simp
  finally have 1: "take (length ?pre) docText = ?pre" .
  have "take (length (?ls ! i)) (drop (length ?pre) docText)
        = take (length (?ls ! i)) (drop (length ?pre) (docText @ sep))"
    using le by simp
  also have "\<dots> = ?ls ! i" unfolding dec by simp
  finally have 2: "take (length (?ls ! i)) (drop (length ?pre) docText) = ?ls ! i" .
  show ?thesis unfolding a using 1 2 by (rule conjI)
qed

section \<open>Properties of the scan\<close>

lemma exec_step_None: "i \<le> length t \<Longrightarrow> m t i = None \<Longrightarrow> exec m t i = exec m t (Suc i)"
  by (subst exec.simps) simp

lemma exec_step_Some: "i \<le> length t \<Longrightarrow> m t i = Some n \<Longrightarrow> exec m t i = Some (i, i + n)"
  by (subst exec.simps) simp


lemma exec_Some_mono:
  "exec m t i = Some (a, b) \<Longrightarrow> i \<le> j \<Longrightarrow> j \<le> a \<Longrightarrow> exec m t j = Some (a, b)"
proof (induction m t i rule: exec.induct)
  case (1 m t i)
  show ?case
  proof (cases "i = j")
    case True
    then show ?thesis using "1.prems" by simp
  next
    case False
    then have lt: "Suc i \<le> j" using "1.prems" by simp
    have "a \<le> length t" using exec_Some [OF "1.prems"(1)] by simp
    then have le: "i \<le> length t" using lt "1.prems" by simp
    have none: "m t i = None"
    proof (cases "m t i")
      case None
      then show ?thesis .
    next
      case (Some n)
      then have "a = i" using "1.prems"(1) le exec_step_Some [of i t m n] by simp
      then show ?thesis using lt "1.prems" by simp
    qed
    then have "exec m t (Suc i) = Some (a, b)"
      using "1.prems"(1) le none exec_step_None [of i t m] by simp
    moreover have "\<not> length t < i" using le by simp
    ultimately show ?thesis using "1.IH" [OF _ none] lt "1.prems"(3) by simp
  qed
qed


lemma searchLoop_None: "exec q t li = None \<Longrightarrow> searchLoop q t lim e li ix = []"
  by (subst searchLoop.simps) simp

lemma searchLoop_Some:
  "exec q t li = Some (a, b) \<Longrightarrow>
   searchLoop q t lim e li ix =
     (a, b) # (if lim \<le> ix + 2 \<or> e < (if a = b then b + 1 else b) then []
               else searchLoop q t lim e (if a = b then b + 1 else b) (ix + 2))"
  by (subst searchLoop.simps) simp

lemma searchLoop_bounds:
  "x \<in> set (searchLoop q t lim e li ix) \<Longrightarrow> li \<le> fst x \<and> fst x \<le> length t"
proof (induction q t lim e li ix rule: searchLoop.induct)
  case (1 q t lim e li ix)
  show ?case
  proof (cases "exec q t li")
    case None
    then show ?thesis using "1.prems" by (simp add: searchLoop_None)
  next
    case (Some r)
    obtain a b where r: "r = (a, b)" by (cases r)
    have ex: "exec q t li = Some (a, b)" using Some r by simp
    note bd = exec_Some [OF ex]
    show ?thesis
    proof (cases "lim \<le> ix + 2 \<or> e < (if a = b then b + 1 else b)")
      case True
      then show ?thesis using "1.prems" bd by (auto simp: searchLoop_Some [OF ex])
    next
      case False
      have "x = (a, b) \<or> x \<in> set (searchLoop q t lim e (if a = b then b + 1 else b) (ix + 2))"
        using "1.prems" False by (auto simp: searchLoop_Some [OF ex] split: if_splits)
      then show ?thesis
      proof
        assume "x = (a, b)"
        then show ?thesis using bd by simp
      next
        assume "x \<in> set (searchLoop q t lim e (if a = b then b + 1 else b) (ix + 2))"
        then have "(if a = b then b + 1 else b) \<le> fst x \<and> fst x \<le> length t"
          using "1.IH" [OF Some r [symmetric] False] by simp
        then show ?thesis using bd by (auto split: if_splits)
      qed
    qed
  qed
qed

lemma searchLoop_sorted: "sorted_wrt (<) (map fst (searchLoop q t lim e li ix))"
proof (induction q t lim e li ix rule: searchLoop.induct)
  case (1 q t lim e li ix)
  show ?case
  proof (cases "exec q t li")
    case None
    then show ?thesis by (simp add: searchLoop_None)
  next
    case (Some r)
    obtain a b where r: "r = (a, b)" by (cases r)
    have ex: "exec q t li = Some (a, b)" using Some r by simp
    note bd = exec_Some [OF ex]
    show ?thesis
    proof (cases "lim \<le> ix + 2 \<or> e < (if a = b then b + 1 else b)")
      case True
      then show ?thesis by (auto simp: searchLoop_Some [OF ex])
    next
      case False
      have "\<forall>x \<in> set (searchLoop q t lim e (if a = b then b + 1 else b) (ix + 2)). a < fst x"
      proof
        fix x assume "x \<in> set (searchLoop q t lim e (if a = b then b + 1 else b) (ix + 2))"
        then have "(if a = b then b + 1 else b) \<le> fst x" using searchLoop_bounds by blast
        then show "a < fst x" using bd by (auto split: if_splits)
      qed
      then show ?thesis
        using "1.IH" [OF Some r [symmetric] False] False
        by (auto simp: searchLoop_Some [OF ex])
    qed
  qed
qed

lemma searchLoop_length: "length (searchLoop q t lim e li ix) \<le> Suc (length t) - li"
proof (induction q t lim e li ix rule: searchLoop.induct)
  case (1 q t lim e li ix)
  show ?case
  proof (cases "exec q t li")
    case None
    then show ?thesis by (simp add: searchLoop_None)
  next
    case (Some r)
    obtain a b where r: "r = (a, b)" by (cases r)
    have ex: "exec q t li = Some (a, b)" using Some r by simp
    note bd = exec_Some [OF ex]
    show ?thesis
    proof (cases "lim \<le> ix + 2 \<or> e < (if a = b then b + 1 else b)")
      case True
      then show ?thesis using bd by (auto simp: searchLoop_Some [OF ex])
    next
      case False
      have "length (searchLoop q t lim e (if a = b then b + 1 else b) (ix + 2))
            \<le> Suc (length t) - (if a = b then b + 1 else b)"
        using "1.IH" [OF Some r [symmetric] False] by simp
      then show ?thesis using False bd
        by (auto simp: searchLoop_Some [OF ex] split: if_splits)
    qed
  qed
qed

lemma searchLoop_hd:
  "searchLoop q t lim e li ix \<noteq> [] \<Longrightarrow> exec q t li = Some (hd (searchLoop q t lim e li ix))"
proof (cases "exec q t li")
  case None
  assume "searchLoop q t lim e li ix \<noteq> []"
  then show ?thesis using None by (simp add: searchLoop_None)
next
  case (Some r)
  obtain a b where "r = (a, b)" by (cases r)
  then have ex: "exec q t li = Some (a, b)" using Some by simp
  show ?thesis by (simp add: searchLoop_Some [OF ex] ex)
qed

lemma capped_last:
  "li \<le> s \<Longrightarrow> searchLoop q t lim s li ix \<noteq> [] \<Longrightarrow>
   fst (last (searchLoop q t lim s li ix)) < s
   \<or> exec q t s = Some (last (searchLoop q t lim s li ix))"
proof (induction q t lim s li ix rule: searchLoop.induct)
  case (1 q t lim s li ix)
  show ?case
  proof (cases "exec q t li")
    case None
    then show ?thesis using "1.prems" by (simp add: searchLoop_None)
  next
    case (Some r)
    obtain a b where r: "r = (a, b)" by (cases r)
    have ex: "exec q t li = Some (a, b)" using Some r by simp
    note bd = exec_Some [OF ex]
    let ?adv = "if a = b then b + 1 else b"
    have adv: "a < ?adv" using bd by (auto split: if_splits)
    show ?thesis
    proof (cases "lim \<le> ix + 2 \<or> s < ?adv")
      case True
      then have R: "searchLoop q t lim s li ix = [(a, b)]"
        by (auto simp: searchLoop_Some [OF ex])
      show ?thesis
      proof (cases "a < s")
        case True
        then show ?thesis by (simp add: R)
      next
        case False
        then have "exec q t s = Some (a, b)"
          using exec_Some_mono [OF ex "1.prems"(1)] by simp
        then show ?thesis by (simp add: R)
      qed
    next
      case False
      then have le: "?adv \<le> s" by simp
      have R: "searchLoop q t lim s li ix = (a, b) # searchLoop q t lim s ?adv (ix + 2)"
        using False by (simp add: searchLoop_Some [OF ex])
      show ?thesis
      proof (cases "searchLoop q t lim s ?adv (ix + 2) = []")
        case True
        then show ?thesis using adv le by (simp add: R)
      next
        case ne: False
        then show ?thesis
          using "1.IH" [OF Some r [symmetric] False le ne] by (simp add: R)
      qed
    qed
  qed
qed

lemma sorted_fst_last:
  fixes xs :: "(nat \<times> nat) list"
  shows "sorted_wrt (<) (map fst xs) \<Longrightarrow> x \<in> set (butlast xs) \<Longrightarrow> fst x < fst (last xs)"
proof (cases "xs = []")
  case True
  assume "x \<in> set (butlast xs)"
  then show ?thesis using True by simp
next
  case False
  assume s: "sorted_wrt (<) (map fst xs)" and x: "x \<in> set (butlast xs)"
  have "xs = butlast xs @ [last xs]" using False by simp
  then have "sorted_wrt (<) (map fst (butlast xs @ [last xs]))" using s by simp
  then show ?thesis using x by (simp add: sorted_wrt_append)
qed

lemma sorted_butlast:
  fixes xs :: "(nat \<times> nat) list"
  shows "sorted_wrt (<) (map fst xs) \<Longrightarrow> sorted_wrt (<) (map fst (butlast xs))"
proof (cases "xs = []")
  case True
  then show ?thesis by simp
next
  case False
  assume s: "sorted_wrt (<) (map fst xs)"
  have "xs = butlast xs @ [last xs]" using False by simp
  then have "sorted_wrt (<) (map fst (butlast xs @ [last xs]))" using s by simp
  then show ?thesis by (simp add: sorted_wrt_append)
qed

lemma sorted_fst_le_last:
  fixes xs :: "(nat \<times> nat) list"
  shows "sorted_wrt (<) (map fst xs) \<Longrightarrow> x \<in> set xs \<Longrightarrow> fst x \<le> fst (last xs)"
proof -
  assume s: "sorted_wrt (<) (map fst xs)" and x: "x \<in> set xs"
  then have ne: "xs \<noteq> []" by auto
  then have "xs = butlast xs @ [last xs]" by simp
  then have "x \<in> set (butlast xs) \<or> x = last xs" using x
    by (metis Un_iff empty_iff empty_set set_ConsD set_append)
  then show ?thesis using sorted_fst_last [OF s, of x] by auto
qed

lemma join_sorted:
  assumes P: "P = searchLoop q t lim e s ix"
    and S: "S = searchLoop q t lim' s 0 ix'"
  shows "sorted_wrt (<) (map fst (removeIfDuplicateResultOnEdge P S @ P))"
proof -
  have sP: "sorted_wrt (<) (map fst P)" and sS: "sorted_wrt (<) (map fst S)"
    using P S searchLoop_sorted by auto
  have geP: "\<And>y. y \<in> set P \<Longrightarrow> s \<le> fst y" using P searchLoop_bounds by blast
  show ?thesis
  proof (cases "P = [] \<or> S = []")
    case True
    then show ?thesis using sP sS by (auto simp: removeIfDuplicateResultOnEdge_def)
  next
    case False
    then have neP: "P \<noteq> []" and neS: "S \<noteq> []" by auto
    have hdP: "exec q t s = Some (hd P)" using neP P searchLoop_hd by blast
    have lastS: "fst (last S) < s \<or> exec q t s = Some (last S)"
      using capped_last [of 0 s q t lim' ix'] neS S by simp
    have hd_le: "\<And>y. y \<in> set P \<Longrightarrow> fst (hd P) \<le> fst y"
    proof -
      fix y assume y: "y \<in> set P"
      obtain p ps where "P = p # ps" using neP by (cases P) auto
      then show "fst (hd P) \<le> fst y" using sP y by auto
    qed
    show ?thesis
    proof (cases "fst (hd P) = fst (last S) \<and> snd (hd P) = snd (last S)")
      case True
      then have rem: "removeIfDuplicateResultOnEdge P S = butlast S"
        using neP neS by (simp add: removeIfDuplicateResultOnEdge_def)
      have "\<forall>x \<in> set (butlast S). \<forall>y \<in> set P. fst x < fst y"
      proof (intro ballI)
        fix x y assume "x \<in> set (butlast S)" "y \<in> set P"
        then show "fst x < fst y"
          using sorted_fst_last [OF sS] hd_le True by fastforce
      qed
      then show ?thesis
        using sP sorted_butlast [OF sS] by (simp add: rem sorted_wrt_append)
    next
      case False
      then have rem: "removeIfDuplicateResultOnEdge P S = S"
        using neP neS by (auto simp: removeIfDuplicateResultOnEdge_def)
      have "hd P \<noteq> last S" using False by auto
      then have lt: "fst (last S) < s" using lastS hdP by auto
      have "\<forall>x \<in> set S. \<forall>y \<in> set P. fst x < fst y"
      proof (intro ballI)
        fix x y assume "x \<in> set S" "y \<in> set P"
        then show "fst x < fst y"
          using sorted_fst_le_last [OF sS] geP lt by fastforce
      qed
      then show ?thesis using sP sS by (simp add: rem sorted_wrt_append)
    qed
  qed
qed

lemma createSearchResults_sorted:
  "sorted_wrt (<) (map fst (createSearchResults q t maxR startIndex))"
proof (cases "(case startIndex of Some s \<Rightarrow> s > 0 | None \<Rightarrow> False)
              \<and> length (searchAndAddResultsToArray q t (toLength startIndex) (Some maxR) None) < maxR")
  case True
  then obtain s where s: "startIndex = Some s" "s > 0" by (cases startIndex) auto
  then have cap: "orElse (Some (toLength startIndex)) (length t) = toLength startIndex"
    by (simp add: orElse_def toLength_def)
  show ?thesis
    using True join_sorted [OF refl refl]
    by (simp add: createSearchResults_def Let_def searchAndAddResultsToArray_def cap)
next
  case False
  then show ?thesis
    by (auto simp: createSearchResults_def Let_def searchAndAddResultsToArray_def
        searchLoop_sorted)
qed

lemma createSearchResults_bounds:
  "x \<in> set (createSearchResults q t maxR startIndex) \<Longrightarrow> fst x \<le> length t"
proof -
  have rem: "\<And>P S. set (removeIfDuplicateResultOnEdge P S) \<subseteq> set S"
    by (auto simp: removeIfDuplicateResultOnEdge_def dest: in_set_butlastD)
  assume "x \<in> set (createSearchResults q t maxR startIndex)"
  then have "\<exists>lim e li ix. x \<in> set (searchLoop q t lim e li ix)"
    using rem by (fastforce simp: createSearchResults_def Let_def searchAndAddResultsToArray_def
        split: if_splits)
  then show ?thesis using searchLoop_bounds by blast
qed

lemma strict_sorted_length:
  fixes xs :: "nat list"
  assumes "sorted_wrt (<) xs" "\<forall>x \<in> set xs. x \<le> n"
  shows "length xs \<le> Suc n"
proof -
  have "distinct xs" using assms(1) strict_sorted_iff by blast
  then have "length xs = card (set xs)" by (simp add: distinct_card)
  also have "\<dots> \<le> card {..n}" using assms(2) by (intro card_mono) auto
  finally show ?thesis by simp
qed

lemma createSearchResults_length:
  "length (createSearchResults q t maxR startIndex) \<le> length t + 1"
  using strict_sorted_length [of "map fst (createSearchResults q t maxR startIndex)" "length t"]
    createSearchResults_sorted [of q t maxR startIndex] createSearchResults_bounds [of _ q t maxR startIndex]
  by auto

lemma scanLoop_length: "length (scanLoop L t r e li lm) \<le> Suc (length t) - li"
proof (induction L t r e li lm rule: scanLoop.induct)
  case (1 L t r e li lm)
  show ?case
  proof (cases "exec r t li")
    case None
    then show ?thesis by (subst scanLoop.simps) simp
  next
    case (Some x)
    obtain a b where x: "x = (a, b)" by (cases x)
    have ex: "exec r t li = Some (a, b)" using Some x by simp
    note bd = exec_Some [OF ex]
    show ?thesis
    proof (cases "case e of Some e' \<Rightarrow> int b \<le> e' | None \<Rightarrow> False")
      case True
      have "length (scanLoop L t r e (if a = b then b + 1 else b)
                     (line (createPosFromIndex L (line (createPosFromIndex L lm (Some (int a))))
                        (Some (int b)))))
            \<le> Suc (length t) - (if a = b then b + 1 else b)"
        using "1.IH" [OF Some x [symmetric] refl refl True] by simp
      then show ?thesis using True bd
        by (subst scanLoop.simps) (auto simp: ex Let_def split: if_splits)
    next
      case False
      then show ?thesis by (subst scanLoop.simps) (simp add: ex Let_def)
    qed
  qed
qed







section \<open>Properties of the bisection\<close>

lemma getMatchIndexStart_nth:
  "0 \<le> k \<Longrightarrow> k < int (length (groups (startEndIndexArray indexer))) \<Longrightarrow>
   getMatchIndexStart indexer k = Some (int (fst (groups (startEndIndexArray indexer) ! nat k)))"
  by (simp add: getMatchIndexStart_def getGroupValue_def arrayRead_def)

lemma findLoop_post:
  fixes indexer :: regexIndexer and offset :: int
  defines "n \<equiv> int (length (groups (startEndIndexArray indexer)))"
  defines "st \<equiv> \<lambda>j. int (fst (groups (startEndIndexArray indexer) ! nat j))"
  assumes asc: "\<And>i j. 0 \<le> i \<Longrightarrow> i < j \<Longrightarrow> j < n \<Longrightarrow> st i < st j"
  shows "0 \<le> lo \<Longrightarrow> hi < n \<Longrightarrow> lo \<le> hi + 1 \<Longrightarrow>
         (\<forall>j. 0 \<le> j \<and> j < lo \<longrightarrow> st j < offset) \<Longrightarrow>
         (\<forall>j. hi < j \<and> j < n \<longrightarrow> offset < st j) \<Longrightarrow>
         (lo = hi + 1 \<longrightarrow> (cmp = Some (- 1) \<and> si = Some hi) \<or> (cmp = Some 1 \<and> si = Some lo)) \<Longrightarrow>
         (case findLoop indexer (Some offset) lo hi si cmp of
            Hit k \<Rightarrow> 0 \<le> k \<and> k < n \<and> st k = offset
          | Ended si' cmp' \<Rightarrow>
              (\<exists>b. 0 \<le> b \<and> b \<le> n \<and> (\<forall>j. 0 \<le> j \<and> j < b \<longrightarrow> st j < offset)
                 \<and> (\<forall>j. b \<le> j \<and> j < n \<longrightarrow> offset < st j)
                 \<and> ((cmp' = Some (- 1) \<and> si' = Some (b - 1)) \<or> (cmp' = Some 1 \<and> si' = Some b))))"
proof (induction "nat (hi + 1 - lo)" arbitrary: lo hi si cmp rule: less_induct)
  case less
  note lo0 = less.prems(1) and hin = less.prems(2) and lohi = less.prems(3)
    and below = less.prems(4) and above = less.prems(5) and ended = less.prems(6)
  show ?case
  proof (cases "lo \<le> hi")
    case False
    then have eq: "lo = hi + 1" using lohi by simp
    have "findLoop indexer (Some offset) lo hi si cmp = Ended si cmp"
      using False by (subst findLoop.simps) simp
    moreover have "\<exists>b. 0 \<le> b \<and> b \<le> n \<and> (\<forall>j. 0 \<le> j \<and> j < b \<longrightarrow> st j < offset)
                 \<and> (\<forall>j. b \<le> j \<and> j < n \<longrightarrow> offset < st j)
                 \<and> ((cmp = Some (- 1) \<and> si = Some (b - 1)) \<or> (cmp = Some 1 \<and> si = Some b))"
      using lo0 hin below above ended eq by (intro exI [of _ lo]) auto
    ultimately show ?thesis by simp
  next
    case True
    define mid where "mid = (hi + lo) div 2"
    have mid: "lo \<le> mid" "mid \<le> hi" using True by (auto simp: mid_def)
    have rd: "getMatchIndexStart indexer mid = Some (st mid)"
      using getMatchIndexStart_nth [of mid indexer] mid lo0 hin by (simp add: n_def st_def)
    consider (eq) "st mid = offset" | (lt) "st mid < offset" | (gt) "offset < st mid"
      by linarith
    then show ?thesis
    proof cases
      case eq
      then have "findLoop indexer (Some offset) lo hi si cmp = Hit mid"
        using True rd
        by (subst findLoop.simps) (simp add: mid_def [symmetric] compareMatchResultToPos_def Let_def)
      then show ?thesis using eq mid lo0 hin by simp
    next
      case lt
      then have step: "findLoop indexer (Some offset) lo hi si cmp
                       = findLoop indexer (Some offset) (mid + 1) hi (Some mid) (Some (- 1))"
        using True rd
        by (subst findLoop.simps) (simp add: mid_def [symmetric] compareMatchResultToPos_def Let_def)
      have below': "\<forall>j. 0 \<le> j \<and> j < mid + 1 \<longrightarrow> st j < offset"
      proof (intro allI impI)
        fix j assume j: "0 \<le> j \<and> j < mid + 1"
        show "st j < offset"
        proof (cases "j = mid")
          case True
          then show ?thesis using lt by simp
        next
          case False
          then have "st j < st mid" using j mid hin by (intro asc) auto
          then show ?thesis using lt by simp
        qed
      qed
      have "case findLoop indexer (Some offset) (mid + 1) hi (Some mid) (Some (- 1)) of
            Hit k \<Rightarrow> 0 \<le> k \<and> k < n \<and> st k = offset
          | Ended si' cmp' \<Rightarrow>
              (\<exists>b. 0 \<le> b \<and> b \<le> n \<and> (\<forall>j. 0 \<le> j \<and> j < b \<longrightarrow> st j < offset)
                 \<and> (\<forall>j. b \<le> j \<and> j < n \<longrightarrow> offset < st j)
                 \<and> ((cmp' = Some (- 1) \<and> si' = Some (b - 1)) \<or> (cmp' = Some 1 \<and> si' = Some b)))"
        using mid lo0 hin below' above by (intro less.hyps) auto
      then show ?thesis by (simp add: step)
    next
      case gt
      then have step: "findLoop indexer (Some offset) lo hi si cmp
                       = findLoop indexer (Some offset) lo (mid - 1) (Some mid) (Some 1)"
        using True rd
        by (subst findLoop.simps) (simp add: mid_def [symmetric] compareMatchResultToPos_def Let_def)
      have above': "\<forall>j. mid - 1 < j \<and> j < n \<longrightarrow> offset < st j"
      proof (intro allI impI)
        fix j assume j: "mid - 1 < j \<and> j < n"
        show "offset < st j"
        proof (cases "j = mid")
          case True
          then show ?thesis using gt by simp
        next
          case False
          then have "st mid < st j" using j mid lo0 by (intro asc) auto
          then show ?thesis using gt by simp
        qed
      qed
      have "case findLoop indexer (Some offset) lo (mid - 1) (Some mid) (Some 1) of
            Hit k \<Rightarrow> 0 \<le> k \<and> k < n \<and> st k = offset
          | Ended si' cmp' \<Rightarrow>
              (\<exists>b. 0 \<le> b \<and> b \<le> n \<and> (\<forall>j. 0 \<le> j \<and> j < b \<longrightarrow> st j < offset)
                 \<and> (\<forall>j. b \<le> j \<and> j < n \<longrightarrow> offset < st j)
                 \<and> ((cmp' = Some (- 1) \<and> si' = Some (b - 1)) \<or> (cmp' = Some 1 \<and> si' = Some b)))"
        using mid lo0 hin below above' by (intro less.hyps) auto
      then show ?thesis by (simp add: step)
    qed
  qed
qed


lemma findResultIndexNearPos_cases:
  fixes indexer :: regexIndexer and offset :: int and reverse :: bool
  defines "n \<equiv> int (length (matchStarts indexer))"
  defines "st \<equiv> \<lambda>j. matchStarts indexer ! nat j"
  defines "res \<equiv> findResultIndexNearPos indexer (Some offset) reverse"
  assumes ne: "matchStarts indexer \<noteq> []" and asc: "sorted_wrt (<) (matchStarts indexer)"
  shows "(\<exists>k. 0 \<le> k \<and> k < n \<and> st k = offset \<and> res = MatchNumber k)
       \<or> (\<exists>b. 0 \<le> b \<and> b \<le> n \<and> (\<forall>j. 0 \<le> j \<and> j < b \<longrightarrow> st j < offset)
              \<and> (\<forall>j. b \<le> j \<and> j < n \<longrightarrow> offset < st j)
              \<and> res = (if reverse then (if b = 0 then JSFalse else MatchNumber (b - 1))
                        else (if b = n then JSFalse else MatchNumber b)))"
proof -
  let ?gs = "groups (startEndIndexArray indexer)"
  have n: "n = int (length ?gs)" by (simp add: n_def matchStarts_def)
  have st: "\<And>j. 0 \<le> j \<Longrightarrow> j < n \<Longrightarrow> st j = int (fst (?gs ! nat j))"
    by (simp add: st_def matchStarts_def n)
  have n0: "0 < n" using ne by (simp add: n_def)
  have asc': "\<And>i j. 0 \<le> i \<Longrightarrow> i < j \<Longrightarrow> j < int (length ?gs) \<Longrightarrow>
                int (fst (?gs ! nat i)) < int (fst (?gs ! nat j))"
  proof -
    fix i j :: int assume ij: "0 \<le> i" "i < j" "j < int (length ?gs)"
    then have "nat i < nat j" "nat j < length (matchStarts indexer)"
      by (auto simp: matchStarts_def)
    then have "matchStarts indexer ! nat i < matchStarts indexer ! nat j"
      using asc by (simp add: sorted_wrt_iff_nth_less)
    then show "int (fst (?gs ! nat i)) < int (fst (?gs ! nat j))"
      using ij by (simp add: matchStarts_def)
  qed
  have post: "case findLoop indexer (Some offset) 0 (n - 1) None None of
            Hit k \<Rightarrow> 0 \<le> k \<and> k < int (length ?gs) \<and> int (fst (?gs ! nat k)) = offset
          | Ended si' cmp' \<Rightarrow>
              (\<exists>b. 0 \<le> b \<and> b \<le> int (length ?gs)
                 \<and> (\<forall>j. 0 \<le> j \<and> j < b \<longrightarrow> int (fst (?gs ! nat j)) < offset)
                 \<and> (\<forall>j. b \<le> j \<and> j < int (length ?gs) \<longrightarrow> offset < int (fst (?gs ! nat j)))
                 \<and> ((cmp' = Some (- 1) \<and> si' = Some (b - 1)) \<or> (cmp' = Some 1 \<and> si' = Some b)))"
    using n0 by (intro findLoop_post asc') (auto simp: n)
  have len: "int (getItemCount indexer) = n"
    by (simp add: getItemCount_def itemCount_def n)
  show ?thesis
  proof (cases "findLoop indexer (Some offset) 0 (n - 1) None None")
    case (Hit k)
    then have "res = MatchNumber k"
      by (simp add: res_def findResultIndexNearPos_def Let_def len)
    moreover have "0 \<le> k \<and> k < n \<and> st k = offset" using post Hit st by (simp add: n)
    ultimately show ?thesis by blast
  next
    case (Ended si' cmp')
    then obtain b where b: "0 \<le> b" "b \<le> n"
        "\<forall>j. 0 \<le> j \<and> j < b \<longrightarrow> st j < offset"
        "\<forall>j. b \<le> j \<and> j < n \<longrightarrow> offset < st j"
        "(cmp' = Some (- 1) \<and> si' = Some (b - 1)) \<or> (cmp' = Some 1 \<and> si' = Some b)"
      using post st by (auto simp: n)
    have "res = (if reverse then (if b = 0 then JSFalse else MatchNumber (b - 1))
                 else (if b = n then JSFalse else MatchNumber b))"
      using b(1,2,5) Ended
      by (auto simp: res_def findResultIndexNearPos_def Let_def len)
    then show ?thesis using b by blast
  qed
qed



section \<open>The claims\<close>

text \<open>
  C1.  With a non-empty match table and no current match, \<^verbatim>\<open>find(reverse)\<close> is claimed
  to set the nearest match in the search direction as current and to return its range,
  also when that match is match number 0.  On the document \<^verbatim>\<open>"a"\<close> with the query
  \<^verbatim>\<open>"a"\<close> the table holds one match, the bisection from the end of the document finds
  match number 0 in the reverse direction, and \<^verbatim>\<open>find(true)\<close> returns \<^verbatim>\<open>false\<close>,
  selects no match and clears \<^verbatim>\<open>currentPosition\<close>: the test \<^verbatim>\<open>if (matchIndex)\<close>
  takes the match number 0 for "not found".  On the same cursor \<^verbatim>\<open>find(false)\<close> returns
  the match.
\<close>

theorem find_reverse_misses_match_zero:
  "(case find_cursor literalHost True
           (Map.empty,
            createSearchCursor literalHost
              (noProperties\<lparr>p_document := Some (documentOf ''a''),
                              p_searchQuery := Some (QString ''a'')\<rparr>)) of
      Inl e \<Rightarrow> False
    | Inr (foundPosition, documentMap, c) \<Rightarrow>
        foundPosition = None \<and> currentPosition c = None \<and> \<not> atOccurrence c
        \<and> map_option getCurrentMatch (regexIndexer c) = Some None
        \<and> map_option getItemCount (regexIndexer c) = Some 1
        \<and> map_option (\<lambda>indexer. getItemByMatchNumber indexer 0) (regexIndexer c)
            = Some \<lparr>from_pos = \<lparr>line = Some 0, ch = Some 0\<rparr>,
                    to_pos = \<lparr>line = Some 0, ch = Some 1\<rparr>\<rparr>
        \<and> map_option (\<lambda>indexer. findResultIndexNearPos indexer (Some 2) True) (regexIndexer c)
            = Some (MatchNumber 0))
   \<and> indexFromPos (createLineCharacterCountIndex ''a'' [CHR 0x0A])
        \<lparr>line = Some (lineCount (documentOf ''a'')), ch = Some 0\<rparr> = Some 2
   \<and> (case find_cursor literalHost False
             (Map.empty,
              createSearchCursor literalHost
                (noProperties\<lparr>p_document := Some (documentOf ''a''),
                                p_searchQuery := Some (QString ''a'')\<rparr>)) of
        Inl e \<Rightarrow> False
      | Inr (foundPosition, documentMap, c) \<Rightarrow>
          foundPosition = Some \<lparr>from_pos = \<lparr>line = Some 0, ch = Some 0\<rparr>,
                                to_pos = \<lparr>line = Some 0, ch = Some 1\<rparr>\<rparr>
          \<and> currentPosition c = foundPosition \<and> atOccurrence c)"
  by (simp add: scan_eval index_eval indexer_eval cursor_eval scenario_eval)




text \<open>
  C3.  The last entry of the line index is claimed to be the length of the document text.
  It is not: the index of the one-character document \<^verbatim>\<open>"a"\<close> with the separator
  \<^verbatim>\<open>"\n"\<close> is \<open>[2]\<close>.
\<close>

theorem lineIndex_last_not_text_length:
  "last (createLineCharacterCountIndex ''a'' [CHR 0x0A]) \<noteq> length ''a''"
  by (simp add: createLineCharacterCountIndex_def split_def)

text \<open>
  C3, amended.  For every document text and line separator (not empty, and with the text
  and one separator shorter than \<open>2 ^ 32\<close>), the last entry of the line index is the
  length of the text plus the length of the separator, the loop adding the separator after
  every line, the last one included; and for every \<open>i > 0\<close> line \<open>i\<close> starts at offset
  \<open>L[i-1]\<close>: the text before that offset is the first \<open>i\<close> lines, each with its
  separator, and line \<open>i\<close> follows at that offset.
\<close>

theorem lineIndex_last_and_line_starts:
  assumes sep: "sep \<noteq> []"
    and small: "length docText + length sep < 2 ^ 32"
  shows "last (createLineCharacterCountIndex docText sep) = length docText + length sep
       \<and> (\<forall>i. 0 < i \<and> i < length (split docText sep) \<longrightarrow>
              take (createLineCharacterCountIndex docText sep ! (i - 1)) docText
              = concat (map (\<lambda>l. l @ sep) (take i (split docText sep)))
              \<and> take (length (split docText sep ! i))
                   (drop (createLineCharacterCountIndex docText sep ! (i - 1)) docText)
                = split docText sep ! i)"
  using lineIndex_last [OF sep small] lineIndex_line_start [OF sep small] by blast

theorem lineIndex_last_and_line_starts_witness:
  "'','' \<noteq> [] \<and> length ''ab,c'' + length '','' < (2 :: nat) ^ 32
   \<and> split ''ab,c'' '','' = [''ab'', ''c'']
   \<and> createLineCharacterCountIndex ''ab,c'' '','' = [3, 5]
   \<and> last (createLineCharacterCountIndex ''ab,c'' '','') = length ''ab,c'' + length '',''
   \<and> take (createLineCharacterCountIndex ''ab,c'' '','' ! (1 - 1)) ''ab,c'' = ''ab,''
   \<and> take (length (split ''ab,c'' '','' ! 1))
        (drop (createLineCharacterCountIndex ''ab,c'' '','' ! (1 - 1)) ''ab,c'')
     = split ''ab,c'' '','' ! 1"
proof -
  have sp: "split ''ab,c'' '','' = [''ab'', ''c'']" by (simp add: split_def)
  have L: "createLineCharacterCountIndex ''ab,c'' '','' = [3, 5]"
    by (simp add: createLineCharacterCountIndex_def sp)
  have sep: "'','' \<noteq> []" and small: "length ''ab,c'' + length '','' < (2 :: nat) ^ 32"
    by simp_all
  note both = lineIndex_last_and_line_starts [OF sep small]
  have 1: "last (createLineCharacterCountIndex ''ab,c'' '','')
           = length ''ab,c'' + length '',''"
    using both by blast
  have "0 < (1 :: nat) \<and> 1 < length (split ''ab,c'' '','')" by (simp add: sp)
  then have 2: "take (createLineCharacterCountIndex ''ab,c'' '','' ! (1 - 1)) ''ab,c''
                = concat (map (\<lambda>l. l @ '','') (take 1 (split ''ab,c'' '','')))
              \<and> take (length (split ''ab,c'' '','' ! 1))
                   (drop (createLineCharacterCountIndex ''ab,c'' '','' ! (1 - 1)) ''ab,c'')
                = split ''ab,c'' '','' ! 1"
    using both by blast
  have "concat (map (\<lambda>l. l @ '','') (take 1 (split ''ab,c'' '',''))) = ''ab,''"
    by (simp add: sp)
  then show ?thesis using sep small sp L 1 2 by simp
qed

text \<open>
  C4.  After any scan, two-phase or not and truncated by \<^verbatim>\<open>maxResults\<close> or not, the
  start offsets of consecutive matches of the table are strictly ascending.
\<close>

theorem match_table_ascending:
  "\<forall>i. Suc i < length (createSearchResults q docText maxR startIndex) \<longrightarrow>
       fst (createSearchResults q docText maxR startIndex ! i)
       < fst (createSearchResults q docText maxR startIndex ! Suc i)"
proof (intro allI impI)
  fix i assume i: "Suc i < length (createSearchResults q docText maxR startIndex)"
  have "map fst (createSearchResults q docText maxR startIndex) ! i
        < map fst (createSearchResults q docText maxR startIndex) ! Suc i"
    using createSearchResults_sorted [of q docText maxR startIndex] i
    by (simp add: sorted_wrt_iff_nth_less del: nth_map)
  then show "fst (createSearchResults q docText maxR startIndex ! i)
             < fst (createSearchResults q docText maxR startIndex ! Suc i)"
    using i by simp
qed

theorem match_table_ascending_witness:
  "createSearchResults (literal ''a'') ''aaa'' 3 (Some 1) = [(0, 1), (1, 2), (2, 3)]
   \<and> Suc 0 < length (createSearchResults (literal ''a'') ''aaa'' 3 (Some 1))
   \<and> fst (createSearchResults (literal ''a'') ''aaa'' 3 (Some 1) ! 0)
     < fst (createSearchResults (literal ''a'') ''aaa'' 3 (Some 1) ! Suc 0)"
proof -
  have T: "createSearchResults (literal ''a'') ''aaa'' 3 (Some 1) = [(0, 1), (1, 2), (2, 3)]"
    by (simp add: scan_eval literal_def)
  have len: "Suc 0 < length (createSearchResults (literal ''a'') ''aaa'' 3 (Some 1))"
    by (simp add: T)
  show ?thesis
    using match_table_ascending [of "literal ''a''" "''aaa''" 3 "Some 1"] len T by simp
qed

text \<open>
  C5.  On a non-empty table with strictly ascending start offsets,
  \<^verbatim>\<open>_findResultIndexNearPos\<close> returns the index of an exact hit when there is one;
  otherwise, forward, the smallest index whose start is at or above the offset, or
  \<^verbatim>\<open>false\<close> when every start is below it; and, in reverse, the largest index whose start
  is below the offset, or \<^verbatim>\<open>false\<close> when every start is at or above it.
\<close>

theorem findResultIndexNearPos_correct:
  fixes indexer :: regexIndexer and offset :: int and reverse :: bool
  assumes ne: "matchStarts indexer \<noteq> []" and asc: "sorted_wrt (<) (matchStarts indexer)"
  shows "(\<forall>k < length (matchStarts indexer). matchStarts indexer ! k = offset \<longrightarrow>
            findResultIndexNearPos indexer (Some offset) reverse = MatchNumber (int k))
       \<and> (\<not> reverse \<longrightarrow>
            (\<forall>k < length (matchStarts indexer).
               offset \<le> matchStarts indexer ! k \<and> (\<forall>j < k. matchStarts indexer ! j < offset) \<longrightarrow>
               findResultIndexNearPos indexer (Some offset) reverse = MatchNumber (int k)))
       \<and> (\<not> reverse \<longrightarrow> (\<forall>j < length (matchStarts indexer). matchStarts indexer ! j < offset) \<longrightarrow>
            findResultIndexNearPos indexer (Some offset) reverse = JSFalse)
       \<and> (reverse \<longrightarrow> (\<forall>j < length (matchStarts indexer). matchStarts indexer ! j \<noteq> offset) \<longrightarrow>
            (\<forall>k < length (matchStarts indexer).
               matchStarts indexer ! k < offset
               \<and> (\<forall>j < length (matchStarts indexer). k < j \<longrightarrow> offset \<le> matchStarts indexer ! j) \<longrightarrow>
               findResultIndexNearPos indexer (Some offset) reverse = MatchNumber (int k)))
       \<and> (reverse \<longrightarrow> (\<forall>j < length (matchStarts indexer). matchStarts indexer ! j \<noteq> offset) \<longrightarrow>
            (\<forall>j < length (matchStarts indexer). offset \<le> matchStarts indexer ! j) \<longrightarrow>
            findResultIndexNearPos indexer (Some offset) reverse = JSFalse)"
proof -
  let ?S = "matchStarts indexer"
  let ?n = "int (length ?S)"
  let ?res = "findResultIndexNearPos indexer (Some offset) reverse"
  have mono: "\<And>i j. i < j \<Longrightarrow> j < length ?S \<Longrightarrow> ?S ! i < ?S ! j"
    using asc by (simp add: sorted_wrt_iff_nth_less)
  have n0: "0 < length ?S" using ne by simp
  note cases = findResultIndexNearPos_cases [OF ne asc, of offset reverse]
  consider (hit) k where "k < length ?S" "?S ! k = offset" "?res = MatchNumber (int k)"
    | (miss) b where "b \<le> length ?S" "\<forall>j < b. ?S ! j < offset"
        "\<forall>j. b \<le> j \<and> j < length ?S \<longrightarrow> offset < ?S ! j"
        "?res = (if reverse then (if b = 0 then JSFalse else MatchNumber (int b - 1))
                 else (if b = length ?S then JSFalse else MatchNumber (int b)))"
  proof -
    from cases show ?thesis
    proof
      assume "\<exists>k. 0 \<le> k \<and> k < ?n \<and> ?S ! nat k = offset \<and> ?res = MatchNumber k"
      then obtain k where k: "0 \<le> k" "k < ?n" "?S ! nat k = offset" "?res = MatchNumber k"
        by blast
      then have "nat k < length ?S" "?res = MatchNumber (int (nat k))" by auto
      then show ?thesis using k(3) hit by blast
    next
      assume "\<exists>b. 0 \<le> b \<and> b \<le> ?n \<and> (\<forall>j. 0 \<le> j \<and> j < b \<longrightarrow> ?S ! nat j < offset)
              \<and> (\<forall>j. b \<le> j \<and> j < ?n \<longrightarrow> offset < ?S ! nat j)
              \<and> ?res = (if reverse then (if b = 0 then JSFalse else MatchNumber (b - 1))
                        else (if b = ?n then JSFalse else MatchNumber b))"
      then obtain b where b: "0 \<le> b" "b \<le> ?n"
          "\<forall>j. 0 \<le> j \<and> j < b \<longrightarrow> ?S ! nat j < offset"
          "\<forall>j. b \<le> j \<and> j < ?n \<longrightarrow> offset < ?S ! nat j"
          "?res = (if reverse then (if b = 0 then JSFalse else MatchNumber (b - 1))
                        else (if b = ?n then JSFalse else MatchNumber b))"
        by blast
      have 1: "nat b \<le> length ?S" using b by simp
      have 2: "\<forall>j < nat b. ?S ! j < offset"
      proof (intro allI impI)
        fix j assume "j < nat b"
        then have "0 \<le> int j \<and> int j < b" by simp
        then have "?S ! nat (int j) < offset" using b(3) by blast
        then show "?S ! j < offset" by simp
      qed
      have 3: "\<forall>j. nat b \<le> j \<and> j < length ?S \<longrightarrow> offset < ?S ! j"
      proof (intro allI impI)
        fix j assume "nat b \<le> j \<and> j < length ?S"
        then have "b \<le> int j \<and> int j < ?n" using b(1) by linarith
        then have "offset < ?S ! nat (int j)" using b(4) by blast
        then show "offset < ?S ! j" by simp
      qed
      have 4: "?res = (if reverse then (if nat b = 0 then JSFalse else MatchNumber (int (nat b) - 1))
                 else (if nat b = length ?S then JSFalse else MatchNumber (int (nat b))))"
        using b(1,2,5) by auto
      show ?thesis using miss [OF 1 2 3 4] .
    qed
  qed
  then show ?thesis
  proof cases
    case hit
    have uniq: "\<And>k'. k' < length ?S \<Longrightarrow> ?S ! k' = offset \<Longrightarrow> k' = k"
    proof -
      fix k' assume k': "k' < length ?S" "?S ! k' = offset"
      show "k' = k"
      proof (rule ccontr)
        assume "k' \<noteq> k"
        then consider "k' < k" | "k < k'" by linarith
        then show False
          using mono [of k' k] mono [of k k'] hit(1,2) k' by cases auto
      qed
    qed
    have c1: "\<forall>k' < length ?S. ?S ! k' = offset \<longrightarrow> ?res = MatchNumber (int k')"
      using uniq hit(3) by auto
    have c2: "\<forall>k' < length ?S. offset \<le> ?S ! k' \<and> (\<forall>j < k'. ?S ! j < offset) \<longrightarrow>
                ?res = MatchNumber (int k')"
    proof (intro allI impI)
      fix k' assume k': "k' < length ?S" "offset \<le> ?S ! k' \<and> (\<forall>j < k'. ?S ! j < offset)"
      have "\<not> k < k'" using k' hit(2) by auto
      moreover have "\<not> k' < k" using mono [of k' k] hit(1,2) k' by auto
      ultimately have "k' = k" by simp
      then show "?res = MatchNumber (int k')" using hit(3) by simp
    qed
    have c3: "\<not> (\<forall>j < length ?S. ?S ! j < offset)" using hit(1,2) by auto
    have c4: "\<not> (\<forall>j < length ?S. ?S ! j \<noteq> offset)" using hit(1,2) by auto
    show ?thesis using c1 c2 c3 c4 by blast
  next
    case miss
    have noexact: "\<And>k'. k' < length ?S \<Longrightarrow> ?S ! k' \<noteq> offset"
    proof -
      fix k' assume k': "k' < length ?S"
      show "?S ! k' \<noteq> offset"
      proof (cases "k' < b")
        case True
        then show ?thesis using miss(2) by auto
      next
        case False
        then have "offset < ?S ! k'" using miss(3) k' by auto
        then show ?thesis by simp
      qed
    qed
    have c2: "\<not> reverse \<longrightarrow> (\<forall>k' < length ?S. offset \<le> ?S ! k' \<and> (\<forall>j < k'. ?S ! j < offset) \<longrightarrow>
                ?res = MatchNumber (int k'))"
    proof (intro allI impI)
      fix k' assume r: "\<not> reverse" and k': "k' < length ?S"
        "offset \<le> ?S ! k' \<and> (\<forall>j < k'. ?S ! j < offset)"
      have "\<not> k' < b" using miss(2) k' by auto
      moreover have "\<not> b < k'"
      proof
        assume "b < k'"
        then have "?S ! b < offset" "offset < ?S ! b" using k' miss(3) by auto
        then show False by simp
      qed
      ultimately have "k' = b" by simp
      then show "?res = MatchNumber (int k')" using miss(4) r k' by auto
    qed
    have c3: "\<not> reverse \<longrightarrow> (\<forall>j < length ?S. ?S ! j < offset) \<longrightarrow> ?res = JSFalse"
    proof (intro impI)
      assume r: "\<not> reverse" and all: "\<forall>j < length ?S. ?S ! j < offset"
      have "b = length ?S"
      proof (rule ccontr)
        assume "b \<noteq> length ?S"
        then have "b < length ?S" using miss(1) by simp
        then have "offset < ?S ! b" "?S ! b < offset" using miss(3) all by auto
        then show False by simp
      qed
      then show "?res = JSFalse" using miss(4) r by simp
    qed
    have c4: "reverse \<longrightarrow> (\<forall>k' < length ?S. ?S ! k' < offset
               \<and> (\<forall>j < length ?S. k' < j \<longrightarrow> offset \<le> ?S ! j) \<longrightarrow> ?res = MatchNumber (int k'))"
    proof (intro allI impI)
      fix k' assume r: "reverse" and k': "k' < length ?S"
        "?S ! k' < offset \<and> (\<forall>j < length ?S. k' < j \<longrightarrow> offset \<le> ?S ! j)"
      have 1: "k' < b"
      proof (rule ccontr)
        assume "\<not> k' < b"
        then have "offset < ?S ! k'" using miss(3) k' by auto
        then show False using k' by simp
      qed
      have 2: "\<not> Suc k' < b"
      proof
        assume a: "Suc k' < b"
        then have "?S ! Suc k' < offset" using miss(2) by blast
        moreover have "offset \<le> ?S ! Suc k'" using k' a miss(1) by auto
        ultimately show False by simp
      qed
      have "b = Suc k'" using 1 2 by simp
      then show "?res = MatchNumber (int k')" using miss(4) r by simp
    qed
    have c5: "reverse \<longrightarrow> (\<forall>j < length ?S. offset \<le> ?S ! j) \<longrightarrow> ?res = JSFalse"
    proof (intro impI)
      assume r: "reverse" and all: "\<forall>j < length ?S. offset \<le> ?S ! j"
      have "b = 0"
      proof (rule ccontr)
        assume "b \<noteq> 0"
        then have "0 < b" by simp
        then have "?S ! 0 < offset" "offset \<le> ?S ! 0" using miss(2) all n0 by auto
        then show False by simp
      qed
      then show "?res = JSFalse" using miss(4) r by simp
    qed
    show ?thesis using noexact c2 c3 c4 c5 by blast
  qed
qed

theorem findResultIndexNearPos_correct_witness:
  "(let indexer = \<lparr>startEndIndexArray = makeGroupArray [(1, 2), (4, 5), (7, 9)],
                    docLineIndex = [10]\<rparr>
    in matchStarts indexer = [1, 4, 7] \<and> sorted_wrt (<) (matchStarts indexer)
       \<and> findResultIndexNearPos indexer (Some 4) False = MatchNumber 1
       \<and> findResultIndexNearPos indexer (Some 5) False = MatchNumber 2
       \<and> findResultIndexNearPos indexer (Some 8) False = JSFalse
       \<and> findResultIndexNearPos indexer (Some 5) True = MatchNumber 1
       \<and> findResultIndexNearPos indexer (Some 0) True = JSFalse)"
proof -
  define indexer where
    "indexer = \<lparr>startEndIndexArray = makeGroupArray [(1, 2), (4, 5), (7, 9)],
                docLineIndex = [10]\<rparr>"
  have S: "matchStarts indexer = [1, 4, 7]"
    by (simp add: indexer_def matchStarts_def makeGroupArray_def)
  have ne: "matchStarts indexer \<noteq> []" and asc: "sorted_wrt (<) (matchStarts indexer)"
    by (simp_all add: S)
  have 1: "findResultIndexNearPos indexer (Some 4) False = MatchNumber 1"
    using findResultIndexNearPos_correct [OF ne asc, of 4 False]
    by (simp add: S All_less_Suc numeral_3_eq_3)
  have 2: "findResultIndexNearPos indexer (Some 5) False = MatchNumber 2"
    using findResultIndexNearPos_correct [OF ne asc, of 5 False]
    by (simp add: S All_less_Suc numeral_3_eq_3 numeral_2_eq_2)
  have 3: "findResultIndexNearPos indexer (Some 8) False = JSFalse"
    using findResultIndexNearPos_correct [OF ne asc, of 8 False]
    by (simp add: S All_less_Suc numeral_3_eq_3)
  have 4: "findResultIndexNearPos indexer (Some 5) True = MatchNumber 1"
    using findResultIndexNearPos_correct [OF ne asc, of 5 True]
    by (simp add: S All_less_Suc numeral_3_eq_3 numeral_2_eq_2)
  have 5: "findResultIndexNearPos indexer (Some 0) True = JSFalse"
    using findResultIndexNearPos_correct [OF ne asc, of 0 True]
    by (simp add: S All_less_Suc numeral_3_eq_3)
  show ?thesis
    using S asc 1 2 3 4 5 unfolding indexer_def Let_def by simp
qed

text \<open>
  C6.  After \<^verbatim>\<open>setSearchDocumentAndQuery\<close> with a query whose compiled regex differs
  from the previous one in source or in flags, \<^verbatim>\<open>resultsCurrent\<close> is claimed to be
  false.  \<^verbatim>\<open>_setQuery\<close> compares the sources only.  On the document \<^verbatim>\<open>"AbC abc"\<close>,
  scanned for \<^verbatim>\<open>"abc"\<close> with one match, setting the same query with
  \<^verbatim>\<open>ignoreCase: true\<close> compiles a regex with the \<^verbatim>\<open>i\<close> flag and leaves
  \<^verbatim>\<open>resultsCurrent\<close> true: \<^verbatim>\<open>getMatchCount\<close> still answers 1, where a scan finds 2.
\<close>

theorem ignoreCase_change_keeps_stale_results:
  "(case getMatchCount literalHost
           (Map.empty,
            createSearchCursor literalHost
              (noProperties\<lparr>p_document := Some (documentOf ''AbC abc''),
                              p_searchQuery := Some (QString ''abc'')\<rparr>)) of
      Inl e \<Rightarrow> False
    | Inr (n, documentMap, c) \<Rightarrow>
        n = 1 \<and> resultsCurrent c
        \<and> (let c' = setSearchDocumentAndQuery literalHost
                       (noProperties\<lparr>p_searchQuery := Some (QString ''abc''),
                                       p_ignoreCase := Some True\<rparr>) c
           in map_option flagIgnoreCase (query c) = Some False
              \<and> map_option flagIgnoreCase (query c') = Some True
              \<and> resultsCurrent c'
              \<and> (case getMatchCount literalHost (documentMap, c') of
                    Inl e \<Rightarrow> False | Inr (n', st') \<Rightarrow> n' = 1)
              \<and> (case scanDocumentAndStoreResultsInCursor literalHost (documentMap, c') of
                    Inl e \<Rightarrow> False | Inr (n', st') \<Rightarrow> n' = 2)))"
  by (simp add: scan_eval index_eval indexer_eval cursor_eval scenario_eval)

text \<open>
  C7.  For every text and every pattern, zero-width matches included, the scan loops
  return, and they yield at most \<open>|text| + 1\<close> matches.  The loops are total functions:
  their termination proofs rest on \<open>exec_Some\<close> and on the advance of \<^verbatim>\<open>lastIndex\<close> by 1
  after a zero-width match, which make \<^verbatim>\<open>lastIndex\<close> grow in every iteration (the last
  conjunct), while \<^verbatim>\<open>exec\<close> fails once \<^verbatim>\<open>lastIndex\<close> is beyond the end of the text.
\<close>

theorem scan_loops_bounded:
  "length (searchAndAddResultsToArray q docText lastIndex matchCountLimit searchEndIndex)
     \<le> length docText + 1
   \<and> length (createSearchResults q docText maxR startIndex) \<le> length docText + 1
   \<and> length (scanDocumentUsingRegularExpression documentIndex docText q rng)
     \<le> length docText + 1
   \<and> (case exec q docText lastIndex of
        None \<Rightarrow> True
      | Some (matchIndex, lastIndex') \<Rightarrow>
          lastIndex < (if matchIndex = lastIndex' then lastIndex' + 1 else lastIndex'))"
proof -
  have 1: "length (searchAndAddResultsToArray q docText lastIndex matchCountLimit searchEndIndex)
           \<le> length docText + 1"
    using searchLoop_length
      [of q docText "orElse matchCountLimit 10000000 * 2"
          "orElse searchEndIndex (length docText)" lastIndex 0]
    by (simp add: searchAndAddResultsToArray_def)
  have 3: "length (scanDocumentUsingRegularExpression documentIndex docText q rng)
           \<le> length docText + 1"
    unfolding scanDocumentUsingRegularExpression_def Let_def
    by (rule order_trans [OF scanLoop_length]) simp
  have 4: "case exec q docText lastIndex of
             None \<Rightarrow> True
           | Some (matchIndex, lastIndex') \<Rightarrow>
               lastIndex < (if matchIndex = lastIndex' then lastIndex' + 1 else lastIndex')"
  proof (cases "exec q docText lastIndex")
    case None
    then show ?thesis by simp
  next
    case (Some r)
    obtain a b where r: "r = (a, b)" by (cases r)
    then have "lastIndex \<le> a \<and> a \<le> b" using exec_Some [of q docText lastIndex a b] Some by simp
    then show ?thesis using Some r by auto
  qed
  show ?thesis using 1 createSearchResults_length 3 4 by blast
qed

text \<open>
  C8.  For the line index of a document and a valid position (a line of the document and
  a column within the text of that line, its end included), \<^verbatim>\<open>_indexFromPos\<close> followed
  by \<^verbatim>\<open>_createPosFromIndex\<close> searching from line 0 returns the position.  The document's
  line separator is not empty, and the text with one separator is shorter than \<open>2 ^ 32\<close>,
  the range of the index's entries.
\<close>

theorem lineIndex_roundtrip:
  assumes sep: "sep \<noteq> []"
    and small: "length docText + length sep < 2 ^ 32"
    and l: "line p = Some l" "l < length (split docText sep)"
    and c: "ch p = Some c" "0 \<le> c" "c \<le> int (length (split docText sep ! l))"
  shows "createPosFromIndex (createLineCharacterCountIndex docText sep) (Some 0)
           (indexFromPos (createLineCharacterCountIndex docText sep) p) = p"
proof -
  let ?ls = "split docText sep"
  let ?L = "createLineCharacterCountIndex docText sep"
  let ?n = "length sep"
  have nth: "\<And>i. i < length ?ls \<Longrightarrow> ?L ! i = cum ?n ?ls (Suc i)"
    using index_nth [OF sep small] by simp
  define start where "start = int (cum ?n ?ls l)"
  have idx: "indexFromPos ?L p = Some (start + c)"
  proof (cases l)
    case 0
    then show ?thesis using l c by (simp add: indexFromPos_def start_def)
  next
    case (Suc k)
    then show ?thesis using l c nth [of k] by (simp add: indexFromPos_def start_def)
  qed
  have below: "\<forall>j. 0 \<le> j \<and> j < l \<longrightarrow> int (?L ! j) \<le> start + c"
  proof (intro allI impI)
    fix j assume j: "0 \<le> j \<and> j < l"
    then have "?L ! j = cum ?n ?ls (Suc j)" using l nth by simp
    moreover have "cum ?n ?ls (Suc j) \<le> cum ?n ?ls l" using j by (intro cum_mono) simp
    ultimately show "int (?L ! j) \<le> start + c" using c by (simp add: start_def)
  qed
  have "?L ! l = cum ?n ?ls l + length (?ls ! l) + ?n"
    using nth [of l] l cum_Suc [of l ?ls ?n] by simp
  moreover have "int ?n > 0" using sep by simp
  ultimately have above: "int (?L ! l) > start + c" using c(2,3) unfolding start_def by linarith
  have ln: "lineFromIndex ?L (Some 0) (Some (start + c)) = Some l"
    using lineFromIndexLoop_found [of 0 l ?L "start + c"] l below above
    by (simp add: lineFromIndex_def)
  have prev: "(if l > 0 then int (?L ! (l - 1)) else 0) = start"
  proof (cases l)
    case 0
    then show ?thesis by (simp add: start_def)
  next
    case (Suc k)
    then show ?thesis using nth [of k] l by (simp add: start_def)
  qed
  show ?thesis
    using l c prev by (simp add: idx createPosFromIndex_def ln Let_def)
qed

theorem lineIndex_roundtrip_witness:
  "'','' \<noteq> [] \<and> length ''ab,c'' + length '','' < (2 :: nat) ^ 32
   \<and> split ''ab,c'' '','' = [''ab'', ''c'']
   \<and> indexFromPos (createLineCharacterCountIndex ''ab,c'' '','') \<lparr>line = Some 1, ch = Some 1\<rparr>
     = Some 4
   \<and> createPosFromIndex (createLineCharacterCountIndex ''ab,c'' '','') (Some 0)
       (indexFromPos (createLineCharacterCountIndex ''ab,c'' '','') \<lparr>line = Some 1, ch = Some 1\<rparr>)
     = \<lparr>line = Some 1, ch = Some 1\<rparr>"
proof -
  have sp: "split ''ab,c'' '','' = [''ab'', ''c'']" by (simp add: split_def)
  have ix: "indexFromPos (createLineCharacterCountIndex ''ab,c'' '','')
              \<lparr>line = Some 1, ch = Some 1\<rparr> = Some 4"
    by (simp add: index_eval)
  have "createPosFromIndex (createLineCharacterCountIndex ''ab,c'' '','') (Some 0)
          (indexFromPos (createLineCharacterCountIndex ''ab,c'' '','')
             \<lparr>line = Some 1, ch = Some 1\<rparr>)
        = \<lparr>line = Some 1, ch = Some 1\<rparr>"
    by (rule lineIndex_roundtrip [where l = 1 and c = 1]) (simp_all add: sp)
  then show ?thesis using sp ix by simp
qed

text \<open>
  C9.  Scanning \<^verbatim>\<open>"xxxxx"\<close> with \<^verbatim>\<open>.*\<close> from offset 0 is claimed to store 6 matches.
  It does not store 6.
\<close>

theorem dotStar_not_six_matches:
  "getItemCount (createRegexIndexer ''xxxxx''
     (createLineCharacterCountIndex ''xxxxx'' [CHR 0x0A]) dotStar None None) \<noteq> 6"
  by (simp add: scan_eval index_eval indexer_eval scenario_eval)

text \<open>
  C9, amended.  Scanning \<^verbatim>\<open>"xxxxx"\<close> with \<^verbatim>\<open>.*\<close> from offset 0 returns and stores
  exactly 2 matches: the match of the whole line from \<open>{line 0, ch 0}\<close> to
  \<open>{line 0, ch 5}\<close>, then one zero-width match at \<open>{line 0, ch 5}\<close>;
  \<^verbatim>\<open>_scanDocumentUsingRegularExpression\<close> reports the same two.
\<close>

theorem dotStar_two_matches:
  "(let indexer = createRegexIndexer ''xxxxx''
                    (createLineCharacterCountIndex ''xxxxx'' [CHR 0x0A]) dotStar None None
    in getItemCount indexer = 2
       \<and> getItemByMatchNumber indexer 0
           = \<lparr>from_pos = \<lparr>line = Some 0, ch = Some 0\<rparr>, to_pos = \<lparr>line = Some 0, ch = Some 5\<rparr>\<rparr>
       \<and> getItemByMatchNumber indexer 1
           = \<lparr>from_pos = \<lparr>line = Some 0, ch = Some 5\<rparr>, to_pos = \<lparr>line = Some 0, ch = Some 5\<rparr>\<rparr>)
   \<and> scanDocumentUsingRegularExpression (createLineCharacterCountIndex ''xxxxx'' [CHR 0x0A])
        ''xxxxx'' dotStar None
      = [(\<lparr>line = Some 0, ch = Some 0\<rparr>, \<lparr>line = Some 0, ch = Some 5\<rparr>),
         (\<lparr>line = Some 0, ch = Some 5\<rparr>, \<lparr>line = Some 0, ch = Some 5\<rparr>)]"
  by (simp add: scan_eval index_eval indexer_eval scenario_eval
      scanDocumentUsingRegularExpression_def scanLoop.simps)

text \<open>
  C10.  \<^verbatim>\<open>setSearchDocumentAndQuery\<close> leaves a stored field as it was whenever the
  property that sets it is absent or falsy: \<^verbatim>\<open>ignoreCase: false\<close> does not reset a true
  \<^verbatim>\<open>ignoreCase\<close>, \<^verbatim>\<open>maxResults: 0\<close> keeps the previous \<^verbatim>\<open>maxResults\<close>, a field whose
  property is not mentioned keeps its value, and only \<^verbatim>\<open>atOccurrence\<close> is reset
  unconditionally.
\<close>

theorem setSearchDocumentAndQuery_frame:
  "(let c' = setSearchDocumentAndQuery h properties c
    in \<not> atOccurrence c'
       \<and> regexIndexer c' = regexIndexer c
       \<and> (ignoreCase c \<longrightarrow> ignoreCase c')
       \<and> (p_ignoreCase properties \<noteq> Some True \<longrightarrow> ignoreCase c' = ignoreCase c)
       \<and> (p_document properties = None \<longrightarrow> doc c' = doc c)
       \<and> (\<not> truthyQuery (p_searchQuery properties) \<longrightarrow>
            query c' = query c \<and> resultsCurrent c' = resultsCurrent c)
       \<and> (p_position properties = None \<longrightarrow> currentPosition c' = currentPosition c)
       \<and> (\<not> truthyNumber (p_maxResults properties) \<longrightarrow> maxResults c' = maxResults c)
       \<and> (p_ignoreCase properties \<noteq> Some True \<and> p_document properties = None
            \<and> \<not> truthyQuery (p_searchQuery properties) \<and> p_position properties = None
            \<and> \<not> truthyNumber (p_maxResults properties) \<longrightarrow>
            c' = c\<lparr>atOccurrence := False\<rparr>))"
  by (auto simp: setSearchDocumentAndQuery_def Let_def setQuery_def setPos_def
      split: option.splits)

theorem setSearchDocumentAndQuery_frame_witness:
  "(let c = newCursor\<lparr>ignoreCase := True, maxResults := Some 5, atOccurrence := True\<rparr>;
        properties = noProperties\<lparr>p_ignoreCase := Some False, p_maxResults := Some 0\<rparr>;
        c' = setSearchDocumentAndQuery literalHost properties c
    in p_ignoreCase properties \<noteq> Some True \<and> \<not> truthyNumber (p_maxResults properties)
       \<and> p_document properties = None \<and> \<not> truthyQuery (p_searchQuery properties)
       \<and> p_position properties = None \<and> ignoreCase c
       \<and> ignoreCase c' \<and> maxResults c' = Some 5 \<and> c' = c\<lparr>atOccurrence := False\<rparr>)"
  using setSearchDocumentAndQuery_frame [of literalHost
      "noProperties\<lparr>p_ignoreCase := Some False, p_maxResults := Some 0\<rparr>"
      "newCursor\<lparr>ignoreCase := True, maxResults := Some 5, atOccurrence := True\<rparr>"]
  by (simp add: Let_def noProperties_def newCursor_def truthyNumber_def truthyQuery_def)

end
